theory Spec2Isabelle
  imports Complex_Main
begin

section \<open>Numbers\<close>

text \<open>
  The environment of \<^verbatim>\<open>new1.py\<close> computes with Python floats and NumPy arrays of
  them. They are modelled as \<^typ>\<open>real\<close>: rounding, infinities and NaN are outside the
  model, and the \<^verbatim>\<open>float32\<close> cast of the observation is the identity. Python
  integers are \<^typ>\<open>int\<close>; the results of \<^verbatim>\<open>len\<close> and the counters of
  \<^verbatim>\<open>range\<close> loops are \<^typ>\<open>nat\<close>. The solver's status code and the existence test
  of the log directory are branches of the source and of the model. Opening a log file
  for append raises when the path cannot be opened; the exception leaves
  \<^verbatim>\<open>_save_floor_disps\<close> and \<^verbatim>\<open>step\<close>, which catch nothing, and is a result of
  theirs in the model. Errors raised inside the solver's own calls are outside the model.
\<close>

section \<open>The solver's global domain\<close>

text \<open>
  \<^verbatim>\<open>openseespy.opensees\<close> keeps one global model. The commands the source issues
  build it up; it is a record of what has been declared, a counter of the wipes, and
  the solver's own response state \<open>dyn\<close>, of a type the solver chooses.
\<close>

record element =
  ele_type :: string
  ele_tag :: int
  ele_i :: int
  ele_j :: int
  ele_mat :: int
  ele_dir :: int

datatype config_cmd =
    TimeSeriesPath int real "real list"
  | UniformExcitation int int int
  | Rayleigh real real real real
  | System string
  | Numberer string
  | Constraints string
  | IntegratorNewmark real real
  | Algorithm string
  | Analysis string

record 'd ops_state =
  ndm_ndf :: "(int \<times> int) option"
  nodes :: "(int \<times> real) list"
  fixed :: "(int \<times> int) list"
  masses :: "(int \<times> real) list"
  materials :: "(string \<times> int \<times> real) list"
  elements :: "element list"
  config :: "config_cmd list"
  wipes :: nat
  dyn :: 'd

text \<open>
  What the external solver computes is a parameter: its response state after a wipe,
  \<^verbatim>\<open>ops.analyze(numIncr, dt)\<close> (a status code and the new response state) and
  \<^verbatim>\<open>ops.nodeDisp(node, dof)\<close>.
\<close>

record 'd solver =
  fresh :: 'd
  analyze :: "'d ops_state \<Rightarrow> int \<Rightarrow> real \<Rightarrow> int \<times> 'd"
  nodeDisp :: "'d ops_state \<Rightarrow> int \<Rightarrow> int \<Rightarrow> real"

definition ops_wipe :: "'d solver \<Rightarrow> 'd ops_state \<Rightarrow> 'd ops_state" where
  "ops_wipe sv st =
     \<lparr>ndm_ndf = None, nodes = [], fixed = [], masses = [], materials = [],
      elements = [], config = [], wipes = Suc (wipes st), dyn = fresh sv\<rparr>"

definition ops_model :: "int \<Rightarrow> int \<Rightarrow> 'd ops_state \<Rightarrow> 'd ops_state" where
  "ops_model ndm ndf st = st\<lparr>ndm_ndf := Some (ndm, ndf)\<rparr>"

definition ops_node :: "int \<Rightarrow> real \<Rightarrow> 'd ops_state \<Rightarrow> 'd ops_state" where
  "ops_node nodeTag x st = st\<lparr>nodes := nodes st @ [(nodeTag, x)]\<rparr>"

definition ops_fix :: "int \<Rightarrow> int \<Rightarrow> 'd ops_state \<Rightarrow> 'd ops_state" where
  "ops_fix nodeTag c st = st\<lparr>fixed := fixed st @ [(nodeTag, c)]\<rparr>"

definition ops_mass :: "int \<Rightarrow> real \<Rightarrow> 'd ops_state \<Rightarrow> 'd ops_state" where
  "ops_mass nodeTag m st = st\<lparr>masses := masses st @ [(nodeTag, m)]\<rparr>"

definition ops_uniaxialMaterial ::
  "string \<Rightarrow> int \<Rightarrow> real \<Rightarrow> 'd ops_state \<Rightarrow> 'd ops_state" where
  "ops_uniaxialMaterial matType matTag k st =
     st\<lparr>materials := materials st @ [(matType, matTag, k)]\<rparr>"

definition ops_element ::
  "string \<Rightarrow> int \<Rightarrow> int \<Rightarrow> int \<Rightarrow> int \<Rightarrow> int \<Rightarrow> 'd ops_state \<Rightarrow> 'd ops_state" where
  "ops_element eleType eleTag iNode jNode matTag dir st =
     st\<lparr>elements := elements st @
        [\<lparr>ele_type = eleType, ele_tag = eleTag, ele_i = iNode, ele_j = jNode,
          ele_mat = matTag, ele_dir = dir\<rparr>]\<rparr>"

definition ops_config :: "config_cmd \<Rightarrow> 'd ops_state \<Rightarrow> 'd ops_state" where
  "ops_config c st = st\<lparr>config := config st @ [c]\<rparr>"

definition ops_analyze ::
  "'d solver \<Rightarrow> int \<Rightarrow> real \<Rightarrow> 'd ops_state \<Rightarrow> int \<times> 'd ops_state" where
  "ops_analyze sv numIncr dt st =
     (let (ok, d) = analyze sv st numIncr dt in (ok, st\<lparr>dyn := d\<rparr>))"

section \<open>The environment\<close>

record env =
  acc_data :: "real list"
  num_steps :: nat
  dt :: real
  floor_num :: nat
  code_drift :: real
  episode_count :: int
  model_built :: bool
  state_dim :: nat
  action_dim :: nat
  last_alphavalue :: real

text \<open>\<^verbatim>\<open>reset\<close>: the observation is set to 0.0 and returned as a one-element array.\<close>

definition reset :: "env \<Rightarrow> real list \<times> env" where
  "reset self =
     (let self = self\<lparr>last_alphavalue := 0\<rparr>;
          state = [last_alphavalue self]
      in (state, self))"

text \<open>
  \<^verbatim>\<open>__init__\<close>, given the samples that \<^verbatim>\<open>np.loadtxt\<close> read. The attribute
  \<^verbatim>\<open>last_alphavalue\<close> does not exist before the call of \<^verbatim>\<open>reset\<close>; the record
  holds 0 there.
\<close>

definition init_env :: "real list \<Rightarrow> real \<Rightarrow> real \<Rightarrow> env" where
  "init_env acc dt0 code_drift0 =
     snd (reset \<lparr>acc_data = acc, num_steps = length acc, dt = dt0, floor_num = 10,
                 code_drift = code_drift0, episode_count = 0, model_built = False,
                 state_dim = 1, action_dim = 10, last_alphavalue = 0\<rparr>)"

definition build_model :: "'d solver \<Rightarrow> env \<Rightarrow> 'd ops_state \<Rightarrow> env \<times> 'd ops_state" where
  "build_model sv self st = (self\<lparr>model_built := True\<rparr>, ops_wipe sv st)"

subsection \<open>The time history\<close>

text \<open>
  The inner loop over the floor nodes 2..floor_num+1: the entry of a floor is replaced
  by the displacement \<open>d\<close> itself when \<open>d\<close> is larger in absolute value.
\<close>

definition record_disp :: "'d solver \<Rightarrow> 'd ops_state \<Rightarrow> nat \<Rightarrow> real list \<Rightarrow> real list" where
  "record_disp sv st nd max_disps =
     (let d = nodeDisp sv st (int nd) 1;
          index = nd - 2
      in if \<bar>d\<bar> > \<bar>max_disps ! index\<bar> then max_disps[index := d] else max_disps)"

definition record_disps :: "'d solver \<Rightarrow> env \<Rightarrow> 'd ops_state \<Rightarrow> real list \<Rightarrow> real list" where
  "record_disps sv self st max_disps =
     fold (record_disp sv st) [2..<floor_num self + 2] max_disps"

text \<open>
  The loop \<^verbatim>\<open>for step in range(self.num_steps)\<close>, by the number of steps left: one
  call of analyze; a status other than 0 leaves the loop.
\<close>

fun time_history ::
  "'d solver \<Rightarrow> env \<Rightarrow> nat \<Rightarrow> 'd ops_state \<Rightarrow> real list \<Rightarrow> 'd ops_state \<times> real list" where
  "time_history sv self 0 st max_disps = (st, max_disps)"
| "time_history sv self (Suc n) st max_disps =
     (let (ok, st) = ops_analyze sv 1 (dt self) st
      in if ok \<noteq> 0 then (st, max_disps)
         else time_history sv self n st (record_disps sv self st max_disps))"

text \<open>The loop over the floor_num - 1 pairs of consecutive floors.\<close>

definition story_drift_step :: "real list \<Rightarrow> nat \<Rightarrow> real \<Rightarrow> real" where
  "story_drift_step max_disps i max_story_drift =
     (let drift = \<bar>max_disps ! (i + 1) - max_disps ! i\<bar> / 3
      in if drift > max_story_drift then drift else max_story_drift)"

definition max_story_drift_of :: "env \<Rightarrow> real list \<Rightarrow> real" where
  "max_story_drift_of self max_disps =
     fold (story_drift_step max_disps) [0..<floor_num self - 1] 0"

subsection \<open>\<^verbatim>\<open>run_opensees_analysis\<close>\<close>

text \<open>One pass of the loop that links consecutive floors, on the tag counter and the model.\<close>

definition link_floors ::
  "int \<Rightarrow> nat \<Rightarrow> int \<times> 'd ops_state \<Rightarrow> int \<times> 'd ops_state" where
  "link_floors matTag i = (\<lambda>(elementTag, st).
     (elementTag + 1,
      ops_element ''twoNodeLink'' elementTag (int i + 1) (int i + 2) matTag 1 st))"

text \<open>
  The function in its parts, in the order of the source: the wipe and the model (parts 1
  and 2), the excitation, the damping and the analysis options (parts 3 to 5), the time
  history (part 6) and the drift and the alphavalue (parts 7 and 8).
\<close>

definition build_structure :: "'d solver \<Rightarrow> env \<Rightarrow> int \<Rightarrow> 'd ops_state \<Rightarrow> 'd ops_state" where
  "build_structure sv self damper_floor st =
     (let st = ops_wipe sv st;
          st = ops_model 1 1 st;
          st = fold (\<lambda>i. ops_node (int i + 1) (real i * 3)) [0..<floor_num self + 1] st;
          st = ops_fix 1 1 st;
          mass_per_floor = 100000;
          st = fold (\<lambda>nd. ops_mass (int nd) mass_per_floor) [2..<floor_num self + 2] st;
          matTag = 1;
          k_floor = 100000000;
          st = ops_uniaxialMaterial ''Elastic'' matTag k_floor st;
          (elementTag, st) = fold (link_floors matTag) [1..<floor_num self] (1, st);
          (elementTag, st) =
            (if 1 \<le> damper_floor \<and> damper_floor < int (floor_num self)
             then (elementTag + 1,
                   ops_element ''twoNodeLink'' elementTag damper_floor (damper_floor + 1)
                     matTag 1 st)
             else (elementTag, st))
      in st)"

definition configure_analysis :: "env \<Rightarrow> 'd ops_state \<Rightarrow> 'd ops_state" where
  "configure_analysis self st =
     (let st = ops_config (TimeSeriesPath 1 (dt self) (acc_data self)) st;
          st = ops_config (UniformExcitation 1 1 1) st;
          zeta = (1/50 :: real);
          alphaM = 0;
          betaK = 0;
          st = ops_config (Rayleigh alphaM betaK 0 0) st;
          st = ops_config (System ''BandGeneral'') st;
          st = ops_config (Numberer ''Plain'') st;
          st = ops_config (Constraints ''Plain'') st;
          st = ops_config (IntegratorNewmark (1/2) (1/4)) st;
          st = ops_config (Algorithm ''Newton'') st;
          st = ops_config (Analysis ''Transient'') st
      in st)"

definition run_opensees_analysis ::
  "'d solver \<Rightarrow> env \<Rightarrow> int \<Rightarrow> 'd ops_state \<Rightarrow> (real \<times> real list) \<times> 'd ops_state" where
  "run_opensees_analysis sv self damper_floor st =
     (let st = build_structure sv self damper_floor st;
          st = configure_analysis self st;
          (st, max_disps) =
            time_history sv self (num_steps self) st (replicate (floor_num self) 0);
          max_story_drift = max_story_drift_of self max_disps;
          alphavalue = \<bar>max_story_drift - code_drift self\<bar>
      in ((alphavalue, max_disps), st))"

section \<open>The per-floor log files\<close>

text \<open>
  The part of the file system the source touches: the directories that exist and the
  contents of the regular files, by path.
\<close>

record filesys =
  dirs :: "string set"
  files :: "string \<rightharpoonup> string"

definition os_path_exists :: "filesys \<Rightarrow> string \<Rightarrow> bool" where
  "os_path_exists fs p = (p \<in> dirs fs \<or> files fs p \<noteq> None)"

definition os_makedirs :: "string \<Rightarrow> filesys \<Rightarrow> filesys" where
  "os_makedirs p fs = fs\<lparr>dirs := insert p (dirs fs)\<rparr>"

text \<open>The exceptions of \<^verbatim>\<open>open\<close>.\<close>

datatype io_error = FileNotFoundError | NotADirectoryError | IsADirectoryError

text \<open>
  \<^verbatim>\<open>os.path.dirname\<close> of a relative path, as the paths of the source are: the path
  before its last slash, empty when there is none.
\<close>

definition dirname :: "string \<Rightarrow> string" where
  "dirname p = rev (drop 1 (dropWhile (\<lambda>c. c \<noteq> CHR ''/'') (rev p)))"

text \<open>The file system after a text is appended to a file, which is created when absent.\<close>

definition appended :: "string \<Rightarrow> string \<Rightarrow> filesys \<Rightarrow> filesys" where
  "appended filename s fs =
     fs\<lparr>files := (files fs)(filename \<mapsto>
        (case files fs filename of None \<Rightarrow> [] | Some old \<Rightarrow> old) @ s)\<rparr>"

text \<open>
  \<^verbatim>\<open>open(filename, "a")\<close> and one \<^verbatim>\<open>write\<close>. The call raises, and writes nothing,
  when the directory of the file is a regular file or does not exist, and when the path
  is itself a directory. A path with no directory part is in the current directory.
\<close>

definition append_file :: "string \<Rightarrow> string \<Rightarrow> filesys \<Rightarrow> io_error + filesys" where
  "append_file filename s fs =
     (let parent = dirname filename
      in if parent \<noteq> [] \<and> parent \<notin> dirs fs
         then (if files fs parent \<noteq> None then Inl NotADirectoryError
               else Inl FileNotFoundError)
         else if filename \<in> dirs fs then Inl IsADirectoryError
         else Inr (appended filename s fs))"

subsection \<open>Formatting\<close>

definition digit_char :: "nat \<Rightarrow> char" where
  "digit_char n = ''0123456789'' ! n"

text \<open>\<^verbatim>\<open>str\<close> of a non-negative integer.\<close>

fun str_nat :: "nat \<Rightarrow> string" where
  "str_nat n = (if n < 10 then [digit_char n] else str_nat (n div 10) @ [digit_char (n mod 10)])"

declare str_nat.simps [simp del]

text \<open>
  What Python's \<^verbatim>\<open>f"{x:.6e}"\<close> prints for a number: sign, one digit, the point, six
  digits, \<open>e\<close>, the sign of the decimal exponent and at least two digits of it. The
  value is scaled into
  \<open>[1, 10)\<close> and rounded to six decimals, the half to the even digit; a carry to 10
  moves the exponent.
\<close>

function scale_down :: "real \<Rightarrow> int \<Rightarrow> real \<times> int" where
  "scale_down a e = (if 10 \<le> a then scale_down (a / 10) (e + 1) else (a, e))"
  by pat_completeness auto
termination
proof (relation "measure (\<lambda>(a, e). nat \<lceil>a\<rceil>)")
  show "wf (measure (\<lambda>(a::real, e::int). nat \<lceil>a\<rceil>))" by simp
next
  fix a :: real and e :: int
  assume "10 \<le> a"
  then have "a / 10 \<le> a - 1" by simp
  then have "\<lceil>a / 10\<rceil> \<le> \<lceil>a - 1\<rceil>" by (rule ceiling_mono)
  moreover have "0 < \<lceil>a\<rceil>" using \<open>10 \<le> a\<close> by simp
  ultimately show "((a / 10, e + 1), (a, e)) \<in> measure (\<lambda>(a, e). nat \<lceil>a\<rceil>)"
    by simp
qed

declare scale_down.simps [simp del]

function scale_up :: "real \<Rightarrow> int \<Rightarrow> real \<times> int" where
  "scale_up a e = (if 0 < a \<and> a < 1 then scale_up (a * 10) (e - 1) else (a, e))"
  by pat_completeness auto
termination
proof (relation "measure (\<lambda>(a, e). nat \<lceil>1 / a\<rceil>)")
  show "wf (measure (\<lambda>(a::real, e::int). nat \<lceil>1 / a\<rceil>))" by simp
next
  fix a :: real and e :: int
  assume a: "0 < a \<and> a < 1"
  have tenth: "\<lceil>y / 10\<rceil> < \<lceil>y\<rceil> \<and> 0 < \<lceil>y\<rceil>" if one: "1 < y" for y :: real
  proof -
    have two: "2 \<le> \<lceil>y\<rceil>" using one by linarith
    have "y \<le> of_int \<lceil>y\<rceil>" by (rule le_of_int_ceiling)
    moreover have "(2::real) \<le> of_int \<lceil>y\<rceil>" using two by linarith
    ultimately have "y / 10 \<le> of_int \<lceil>y\<rceil> - 1" by linarith
    then have "y / 10 \<le> of_int (\<lceil>y\<rceil> - 1)" by simp
    then have "\<lceil>y / 10\<rceil> \<le> \<lceil>y\<rceil> - 1" by (rule ceiling_le)
    then show ?thesis using two by linarith
  qed
  have one: "1 < 1 / a" using a by simp
  have eq: "1 / (a * 10) = (1 / a) / 10" by simp
  have "\<lceil>1 / (a * 10)\<rceil> < \<lceil>1 / a\<rceil> \<and> 0 < \<lceil>1 / a\<rceil>"
    using tenth [OF one] by (simp only: eq)
  then show "((a * 10, e - 1), (a, e)) \<in> measure (\<lambda>(a, e). nat \<lceil>1 / a\<rceil>)"
    by simp
qed

declare scale_up.simps [simp del]

definition round_half_even :: "real \<Rightarrow> int" where
  "round_half_even r =
     (let f = \<lfloor>r\<rfloor>; d = r - of_int f
      in if d < 1/2 then f else if d > 1/2 then f + 1 else if even f then f else f + 1)"

definition sci_parts :: "real \<Rightarrow> int \<times> int" where
  "sci_parts a =
     (if a = 0 then (0, 0)
      else let (a1, e1) = scale_down a 0;
               (a2, e2) = scale_up a1 e1;
               q = round_half_even (a2 * 1000000)
           in if q \<ge> 10000000 then (q div 10, e2 + 1) else (q, e2))"

definition format_6e :: "real \<Rightarrow> string" where
  "format_6e x =
     (let (q, e) = sci_parts \<bar>x\<bar>;
          m = nat q;
          n = nat \<bar>e\<bar>
      in (if x < 0 then ''-'' else '''')
         @ [digit_char (m div 1000000)] @ ''.''
         @ map (\<lambda>k. digit_char (m div 10 ^ k mod 10)) [5, 4, 3, 2, 1, 0]
         @ ''e'' @ (if e < 0 then ''-'' else ''+'')
         @ (if n < 10 then ''0'' @ str_nat n else str_nat n))"

definition newline :: string where
  "newline = [CHR 0x0A]"

subsection \<open>\<^verbatim>\<open>_save_floor_disps\<close>\<close>

definition floor_file :: "nat \<Rightarrow> string" where
  "floor_file floor_index = ''floor_disp/floor'' @ str_nat floor_index @ ''_disp.txt''"

text \<open>One pass of the loop over the floors.\<close>

definition save_floor :: "real list \<Rightarrow> nat \<Rightarrow> filesys \<Rightarrow> io_error + filesys" where
  "save_floor max_disps i fs =
     (let floor_index = i + 1;
          filename = floor_file floor_index
      in append_file filename (format_6e (max_disps ! i) @ newline) fs)"

text \<open>
  The loop: an exception ends it, with the file system as the passes before have left
  it. The result is the exception, if one was raised, and the file system.
\<close>

fun save_floors ::
  "real list \<Rightarrow> nat list \<Rightarrow> filesys \<Rightarrow> (io_error + unit) \<times> filesys" where
  "save_floors max_disps [] fs = (Inr (), fs)"
| "save_floors max_disps (i # floors) fs =
     (case save_floor max_disps i fs of
        Inl e \<Rightarrow> (Inl e, fs)
      | Inr fs \<Rightarrow> save_floors max_disps floors fs)"

definition save_floor_disps ::
  "env \<Rightarrow> real list \<Rightarrow> filesys \<Rightarrow> (io_error + unit) \<times> filesys" where
  "save_floor_disps self max_disps fs =
     (let fs = (if \<not> os_path_exists fs ''floor_disp''
                then os_makedirs ''floor_disp'' fs else fs)
      in save_floors max_disps [0..<floor_num self] fs)"

section \<open>\<^verbatim>\<open>step\<close>\<close>

text \<open>
  The result is what the call returns, the tuple (next state, reward, done, info) or the
  exception that the writing of the log has raised, and the three pieces of state the
  call has changed by then: the environment object, the solver's global domain and the
  file system.
\<close>

type_synonym step_result = "real list \<times> real \<times> bool \<times> (string \<times> string) list"

text \<open>The first lines of \<^verbatim>\<open>step\<close>: the episode counter and the periodic rebuild.\<close>

definition begin_episode :: "'d solver \<Rightarrow> env \<Rightarrow> 'd ops_state \<Rightarrow> env \<times> 'd ops_state" where
  "begin_episode sv self st =
     (let self = self\<lparr>episode_count := episode_count self + 1\<rparr>
      in if episode_count self mod 10 = 1 then build_model sv self st else (self, st))"

definition step ::
  "'d solver \<Rightarrow> env \<Rightarrow> int \<Rightarrow> 'd ops_state \<Rightarrow> filesys
     \<Rightarrow> (io_error + step_result) \<times> env \<times> 'd ops_state \<times> filesys" where
  "step sv self action st fs =
     (let (self, st) = begin_episode sv self st;
          damper_floor = action + 1;
          ((alphavalue, max_disps), st) = run_opensees_analysis sv self damper_floor st;
          reward = - alphavalue;
          self = self\<lparr>last_alphavalue := alphavalue\<rparr>;
          next_state = [alphavalue];
          (saved, fs) = save_floor_disps self max_disps fs
      in case saved of
           Inl e \<Rightarrow> (Inl e, self, st, fs)
         | Inr u \<Rightarrow> (let done = True in (Inr (next_state, reward, done, []), self, st, fs)))"

section \<open>Notions the properties are stated with\<close>

text \<open>The link between the floor nodes \<open>i + 1\<close> and \<open>i + 2\<close>, and the damper's link.\<close>

definition floor_link :: "nat \<Rightarrow> element" where
  "floor_link i =
     \<lparr>ele_type = ''twoNodeLink'', ele_tag = int i, ele_i = int i + 1, ele_j = int i + 2,
      ele_mat = 1, ele_dir = 1\<rparr>"

definition damper_link :: "int \<Rightarrow> int \<Rightarrow> element" where
  "damper_link tag damper_floor =
     \<lparr>ele_type = ''twoNodeLink'', ele_tag = tag, ele_i = damper_floor,
      ele_j = damper_floor + 1, ele_mat = 1, ele_dir = 1\<rparr>"

definition link_count :: "'d ops_state \<Rightarrow> nat" where
  "link_count st = length (filter (\<lambda>e. ele_type e = ''twoNodeLink'') (elements st))"

text \<open>
  The solver's states after each successfully analysed step of a time history of at
  most \<open>n\<close> steps, in order: the list ends where analyze first reports a status other
  than 0.
\<close>

fun history :: "'d solver \<Rightarrow> env \<Rightarrow> nat \<Rightarrow> 'd ops_state \<Rightarrow> 'd ops_state list" where
  "history sv self 0 st = []"
| "history sv self (Suc n) st =
     (let (ok, st) = ops_analyze sv 1 (dt self) st
      in if ok \<noteq> 0 then [] else st # history sv self n st)"

text \<open>The model as \<^verbatim>\<open>run_opensees_analysis\<close> has built and configured it.\<close>

definition prepared :: "'d solver \<Rightarrow> env \<Rightarrow> int \<Rightarrow> 'd ops_state \<Rightarrow> 'd ops_state" where
  "prepared sv self damper_floor st =
     configure_analysis self (build_structure sv self damper_floor st)"

text \<open>
  The displacement history of floor \<open>i\<close> (node \<open>i + 2\<close>) in one call of
  \<^verbatim>\<open>run_opensees_analysis\<close>: its displacement after each successful step.
\<close>

definition floor_history ::
  "'d solver \<Rightarrow> env \<Rightarrow> int \<Rightarrow> 'd ops_state \<Rightarrow> nat \<Rightarrow> real list" where
  "floor_history sv self damper_floor st i =
     map (\<lambda>s. nodeDisp sv s (int i + 2) 1)
       (history sv self (num_steps self) (prepared sv self damper_floor st))"

text \<open>
  Of a displacement \<open>d\<close> and the entry \<open>m\<close> recorded so far, the one that the loop
  keeps: \<open>d\<close> itself, with its sign, when it is strictly larger in absolute value.
\<close>

definition peak_step :: "real \<Rightarrow> real \<Rightarrow> real" where
  "peak_step d m = (if \<bar>d\<bar> > \<bar>m\<bar> then d else m)"

text \<open>
  The first \<open>k\<close> calls of analyze from the state \<open>st\<close> report 0 and the next call
  reports another status.
\<close>

fun fails_at :: "'d solver \<Rightarrow> env \<Rightarrow> nat \<Rightarrow> 'd ops_state \<Rightarrow> bool" where
  "fails_at sv self 0 st = (fst (ops_analyze sv 1 (dt self) st) \<noteq> 0)"
| "fails_at sv self (Suc k) st =
     (let (ok, st) = ops_analyze sv 1 (dt self) st in ok = 0 \<and> fails_at sv self k st)"

text \<open>The drift ratio of the pair of floors \<open>i\<close>, \<open>i + 1\<close>.\<close>

definition pair_drift :: "real list \<Rightarrow> nat \<Rightarrow> real" where
  "pair_drift max_disps i = \<bar>max_disps ! (i + 1) - max_disps ! i\<bar> / 3"

text \<open>The digits a formatted number shows before its exponent.\<close>

definition is_digit :: "char \<Rightarrow> bool" where
  "is_digit c = (c \<in> set ''0123456789'')"

definition significand :: "string \<Rightarrow> string" where
  "significand s = takeWhile (\<lambda>c. c \<noteq> CHR ''e'') s"

definition significant_digits :: "string \<Rightarrow> nat" where
  "significant_digits s = length (filter is_digit (significand s))"

definition content :: "filesys \<Rightarrow> string \<Rightarrow> string" where
  "content fs p = (case files fs p of None \<Rightarrow> [] | Some old \<Rightarrow> old)"

text \<open>
  The environment's side of \<^verbatim>\<open>train_rl_model\<close>: every episode is one \<^verbatim>\<open>reset\<close> and
  one \<^verbatim>\<open>step\<close>, and an exception of \<^verbatim>\<open>step\<close> ends the training. The actions are
  what the policy has sampled, one per episode.
\<close>

fun episodes ::
  "'d solver \<Rightarrow> int list \<Rightarrow> env \<Rightarrow> 'd ops_state \<Rightarrow> filesys
     \<Rightarrow> (io_error + unit) \<times> env \<times> 'd ops_state \<times> filesys" where
  "episodes sv [] self st fs = (Inr (), self, st, fs)"
| "episodes sv (action # actions) self st fs =
     (let (state, self) = reset self;
          (res, self, st, fs) = step sv self action st fs
      in case res of
           Inl e \<Rightarrow> (Inl e, self, st, fs)
         | Inr r \<Rightarrow> episodes sv actions self st fs)"

text \<open>
  What one pass of the loop of \<^verbatim>\<open>_save_floor_disps\<close> writes when the file can be
  opened.
\<close>

definition write_floor :: "real list \<Rightarrow> nat \<Rightarrow> filesys \<Rightarrow> filesys" where
  "write_floor max_disps i fs =
     appended (floor_file (i + 1)) (format_6e (max_disps ! i) @ newline) fs"

text \<open>
  The log can be written: the path \<^verbatim>\<open>floor_disp\<close> is a directory or does not exist,
  and none of the paths of the log files is a directory.
\<close>

definition log_writable :: "env \<Rightarrow> filesys \<Rightarrow> bool" where
  "log_writable self fs =
     ((''floor_disp'' \<in> dirs fs \<or> files fs ''floor_disp'' = None)
      \<and> (\<forall>i \<in> {0..<floor_num self}. floor_file (i + 1) \<notin> dirs fs))"

subsection \<open>Concrete inputs\<close>

text \<open>
  A solver to run the model on: its response state counts the steps taken, the first
  two steps succeed and every later one reports the status -3; after \<open>t\<close> steps node
  \<open>nd\<close> stands at \<open>nd * t / 2000\<close>, to the positive side after an odd number of steps
  and to the negative side after an even number.
\<close>

definition demo_solver :: "nat solver" where
  "demo_solver =
     \<lparr>fresh = 0,
      analyze = (\<lambda>st numIncr dt. (if dyn st < 2 then 0 else - 3, Suc (dyn st))),
      nodeDisp = (\<lambda>st nd dof.
         (if odd (dyn st) then 1 else - 1) * real_of_int nd * real (dyn st) / 2000)\<rparr>"

text \<open>A solver whose every step fails.\<close>

definition failing_solver :: "nat solver" where
  "failing_solver =
     \<lparr>fresh = 0,
      analyze = (\<lambda>st numIncr dt. (- 3, dyn st)),
      nodeDisp = (\<lambda>st nd dof. 1)\<rparr>"

definition empty_ops :: "nat ops_state" where
  "empty_ops =
     \<lparr>ndm_ndf = None, nodes = [], fixed = [], masses = [], materials = [],
      elements = [], config = [], wipes = 0, dyn = 0\<rparr>"

definition empty_fs :: filesys where
  "empty_fs = \<lparr>dirs = {}, files = Map.empty\<rparr>"

text \<open>The environment over a record of three samples at \<open>dt = 0.02\<close>.\<close>

definition demo_env :: env where
  "demo_env = init_env [1/10, - 1/10, 1/20] (1/50) (1/100)"

text \<open>The same with a drift limit of 1/3000.\<close>

definition demo_env_exact :: env where
  "demo_env_exact = init_env [1/10, - 1/10, 1/20] (1/50) (1/3000)"

text \<open>A file system in which \<^verbatim>\<open>floor_disp\<close> is a regular file.\<close>

definition blocked_fs :: filesys where
  "blocked_fs = \<lparr>dirs = {}, files = [''floor_disp'' \<mapsto> ''x'']\<rparr>"

section \<open>The structure that is built\<close>

lemma elements_ops [simp]:
  "elements (ops_wipe sv st) = []"
  "elements (ops_model ndm ndf st) = elements st"
  "elements (ops_node nodeTag x st) = elements st"
  "elements (ops_fix nodeTag c st) = elements st"
  "elements (ops_mass nodeTag m st) = elements st"
  "elements (ops_uniaxialMaterial matType matTag k st) = elements st"
  "elements (ops_config cmd st) = elements st"
  "elements (ops_element eleType eleTag iNode jNode matTag dir st) =
     elements st @ [\<lparr>ele_type = eleType, ele_tag = eleTag, ele_i = iNode, ele_j = jNode,
                      ele_mat = matTag, ele_dir = dir\<rparr>]"
  by (simp_all add: ops_wipe_def ops_model_def ops_node_def ops_fix_def ops_mass_def
        ops_uniaxialMaterial_def ops_element_def ops_config_def)

lemma wipes_ops [simp]:
  "wipes (ops_wipe sv st) = Suc (wipes st)"
  "wipes (ops_model ndm ndf st) = wipes st"
  "wipes (ops_node nodeTag x st) = wipes st"
  "wipes (ops_fix nodeTag c st) = wipes st"
  "wipes (ops_mass nodeTag m st) = wipes st"
  "wipes (ops_uniaxialMaterial matType matTag k st) = wipes st"
  "wipes (ops_config cmd st) = wipes st"
  "wipes (ops_element eleType eleTag iNode jNode matTag dir st) = wipes st"
  by (simp_all add: ops_wipe_def ops_model_def ops_node_def ops_fix_def ops_mass_def
        ops_uniaxialMaterial_def ops_element_def ops_config_def)

lemma fold_node_frame [simp]:
  "elements (fold (\<lambda>i. ops_node (f i) (g i)) xs st) = elements st"
  "wipes (fold (\<lambda>i. ops_node (f i) (g i)) xs st) = wipes st"
  by (induction xs arbitrary: st) simp_all

lemma fold_mass_frame [simp]:
  "elements (fold (\<lambda>nd. ops_mass (f nd) m) xs st) = elements st"
  "wipes (fold (\<lambda>nd. ops_mass (f nd) m) xs st) = wipes st"
  by (induction xs arbitrary: st) simp_all

lemma fold_link_floors:
  "fst (fold (link_floors matTag) xs p) = fst p + int (length xs) \<and>
   wipes (snd (fold (link_floors matTag) xs p)) = wipes (snd p)"
  by (induction xs arbitrary: p) (auto simp: link_floors_def split: prod.splits)

lemma elements_fold_link_floors:
  "elements (snd (fold (link_floors 1) [Suc 0..<Suc n] (1, st))) =
     elements st @ map floor_link [Suc 0..<Suc n]"
proof (induction n)
  case 0
  then show ?case by simp
next
  case (Suc n)
  define p where "p = fold (link_floors 1) [Suc 0..<Suc n] (1, st)"
  have unroll: "fold (link_floors 1) [Suc 0..<Suc (Suc n)] (1, st) = link_floors 1 (Suc n) p"
    unfolding p_def by simp
  have tag: "fst p = 1 + int n"
    unfolding p_def by (simp add: fold_link_floors del: upt_Suc)
  have ih: "elements (snd p) = elements st @ map floor_link [Suc 0..<Suc n]"
    unfolding p_def by (rule Suc.IH)
  have "elements (snd (link_floors 1 (Suc n) p)) = elements (snd p) @ [floor_link (Suc n)]"
    by (simp add: link_floors_def case_prod_beta floor_link_def tag)
  then show ?case unfolding unroll ih by simp
qed

lemma elements_configure [simp]: "elements (configure_analysis self st) = elements st"
  by (simp add: configure_analysis_def)

lemma wipes_configure [simp]: "wipes (configure_analysis self st) = wipes st"
  by (simp add: configure_analysis_def)

lemma elements_build_structure:
  "floor_num self = Suc n \<Longrightarrow>
   elements (build_structure sv self damper_floor st) =
     map floor_link [Suc 0..<Suc n] @
     (if 1 \<le> damper_floor \<and> damper_floor < int (Suc n)
      then [damper_link (int n + 1) damper_floor] else [])"
  by (simp add: build_structure_def Let_def case_prod_beta damper_link_def
        elements_fold_link_floors fold_link_floors del: upt_Suc)

lemma wipes_build_structure: "wipes (build_structure sv self damper_floor st) = Suc (wipes st)"
  by (simp add: build_structure_def Let_def case_prod_beta fold_link_floors del: upt_Suc)

lemma time_history_frame:
  "elements (fst (time_history sv self n st md)) = elements st \<and>
   wipes (fst (time_history sv self n st md)) = wipes st"
  by (induction n arbitrary: st md) (auto simp: ops_analyze_def Let_def split: prod.splits)

lemma run_state:
  "snd (run_opensees_analysis sv self damper_floor st) =
     fst (time_history sv self (num_steps self) (prepared sv self damper_floor st)
            (replicate (floor_num self) 0))"
  by (simp add: run_opensees_analysis_def prepared_def Let_def case_prod_beta)

lemma run_max_disps:
  "snd (fst (run_opensees_analysis sv self damper_floor st)) =
     snd (time_history sv self (num_steps self) (prepared sv self damper_floor st)
            (replicate (floor_num self) 0))"
  by (simp add: run_opensees_analysis_def prepared_def Let_def case_prod_beta)

lemma run_alphavalue:
  "fst (fst (run_opensees_analysis sv self damper_floor st)) =
     \<bar>max_story_drift_of self (snd (fst (run_opensees_analysis sv self damper_floor st)))
        - code_drift self\<bar>"
  by (simp add: run_opensees_analysis_def prepared_def Let_def case_prod_beta)

lemma elements_run:
  "floor_num self = Suc n \<Longrightarrow>
   elements (snd (run_opensees_analysis sv self damper_floor st)) =
     map floor_link [Suc 0..<Suc n] @
     (if 1 \<le> damper_floor \<and> damper_floor < int (Suc n)
      then [damper_link (int n + 1) damper_floor] else [])"
  by (simp add: run_state time_history_frame prepared_def elements_build_structure
      del: upt_Suc)

lemma wipes_run: "wipes (snd (run_opensees_analysis sv self damper_floor st)) = Suc (wipes st)"
  by (simp add: run_state time_history_frame prepared_def wipes_build_structure)

lemma link_count_links:
  "link_count (st\<lparr>elements := map floor_link xs @ map (damper_link t) ds\<rparr>) =
     length xs + length ds"
  by (simp add: link_count_def floor_link_def damper_link_def)

lemma episode_count_init [simp]: "episode_count (init_env acc dt0 cd) = 0"
  by (simp add: init_env_def reset_def)

lemma floor_num_init [simp]: "floor_num (init_env acc dt0 cd) = 10"
  by (simp add: init_env_def reset_def)

section \<open>The time history\<close>

lemma length_record_disp [simp]: "length (record_disp sv st nd md) = length md"
  by (simp add: record_disp_def Let_def)

lemma fold_record_disp:
  "length (fold (record_disp sv st) [2..<n + 2] md) = length md \<and>
   (\<forall>i < length md. fold (record_disp sv st) [2..<n + 2] md ! i =
      (if i < n then peak_step (nodeDisp sv st (int i + 2) 1) (md ! i) else md ! i))"
proof (induction n)
  case 0
  then show ?case by simp
next
  case (Suc n)
  define m where "m = fold (record_disp sv st) [2..<n + 2] md"
  have unroll: "fold (record_disp sv st) [2..<Suc n + 2] md = record_disp sv st (n + 2) m"
    unfolding m_def by simp
  have len: "length m = length md"
    and nth: "\<And>i. i < length md \<Longrightarrow>
      m ! i = (if i < n then peak_step (nodeDisp sv st (int i + 2) 1) (md ! i) else md ! i)"
    using Suc.IH unfolding m_def by simp_all
  have "record_disp sv st (n + 2) m ! i =
      (if i < Suc n then peak_step (nodeDisp sv st (int i + 2) 1) (md ! i) else md ! i)"
    if i: "i < length md" for i
  proof (cases "i = n")
    case True
    then show ?thesis
      using i len nth [of n] by (simp add: record_disp_def peak_step_def Let_def add.commute)
  next
    case False
    then show ?thesis
      using i len nth [of i] by (auto simp: record_disp_def Let_def)
  qed
  then show ?case unfolding unroll by (simp add: len)
qed

lemma record_disps_nth:
  "length md = floor_num self \<Longrightarrow> i < floor_num self \<Longrightarrow>
   record_disps sv self st md ! i = peak_step (nodeDisp sv st (int i + 2) 1) (md ! i)"
  using fold_record_disp [of sv st "floor_num self" md] by (simp add: record_disps_def)

lemma length_record_disps [simp]: "length (record_disps sv self st md) = length md"
  using fold_record_disp [of sv st "floor_num self" md] by (simp add: record_disps_def)

lemma time_history_history:
  "snd (time_history sv self n st md) = fold (record_disps sv self) (history sv self n st) md"
  by (induction n arbitrary: st md) (auto simp: Let_def split: prod.splits)

lemma fold_record_disps_nth:
  "length md = floor_num self \<Longrightarrow> i < floor_num self \<Longrightarrow>
   fold (record_disps sv self) hs md ! i =
     fold peak_step (map (\<lambda>s. nodeDisp sv s (int i + 2) 1) hs) (md ! i)"
  by (induction hs arbitrary: md) (simp_all add: record_disps_nth)

lemma length_fold_record_disps [simp]:
  "length (fold (record_disps sv self) hs md) = length md"
  by (induction hs arbitrary: md) simp_all

lemma fold_peak_step_mem: "fold peak_step ds m \<in> insert m (set ds)"
  by (induction ds arbitrary: m) (auto simp: peak_step_def split: if_splits)

lemma Max_insert_max:
  "finite S \<Longrightarrow> Max (insert (max a b) S) = Max (insert a (insert b S))"
  for a b :: real
  by (cases "S = {}") (auto simp: max.assoc max.commute max.left_commute)

lemma abs_peak_step: "\<bar>peak_step d m\<bar> = max \<bar>m\<bar> \<bar>d\<bar>"
  by (simp add: peak_step_def max_def)

lemma fold_peak_step_abs: "\<bar>fold peak_step ds m\<bar> = Max (insert \<bar>m\<bar> (abs ` set ds))"
proof (induction ds arbitrary: m)
  case Nil
  then show ?case by simp
next
  case (Cons d ds)
  have "\<bar>fold peak_step (d # ds) m\<bar> = Max (insert (max \<bar>m\<bar> \<bar>d\<bar>) (abs ` set ds))"
    by (simp add: Cons.IH abs_peak_step)
  also have "\<dots> = Max (insert \<bar>m\<bar> (insert \<bar>d\<bar> (abs ` set ds)))"
    by (rule Max_insert_max) simp
  finally show ?case by simp
qed

lemma run_max_disps_nth:
  assumes "i < floor_num self"
  shows "snd (fst (run_opensees_analysis sv self damper_floor st)) ! i =
           fold peak_step (floor_history sv self damper_floor st i) 0"
  using assms
  by (simp add: run_max_disps time_history_history fold_record_disps_nth floor_history_def)

lemma length_run_max_disps [simp]:
  "length (snd (fst (run_opensees_analysis sv self damper_floor st))) = floor_num self"
  by (simp add: run_max_disps time_history_history)

section \<open>The drift and the reward\<close>

lemma story_drift_step_max: "story_drift_step md i m = max m (pair_drift md i)"
  by (simp add: story_drift_step_def pair_drift_def Let_def max_def)

lemma fold_story_drift_step:
  "fold (story_drift_step md) xs m = Max (insert m (pair_drift md ` set xs))"
proof (induction xs arbitrary: m)
  case Nil
  then show ?case by simp
next
  case (Cons i xs)
  have "fold (story_drift_step md) (i # xs) m =
          Max (insert (max m (pair_drift md i)) (pair_drift md ` set xs))"
    by (simp add: Cons.IH story_drift_step_max)
  also have "\<dots> = Max (insert m (insert (pair_drift md i) (pair_drift md ` set xs)))"
    by (rule Max_insert_max) simp
  finally show ?case by simp
qed

lemma max_story_drift_of_Max:
  "max_story_drift_of self md = Max (insert 0 (pair_drift md ` {0..<floor_num self - 1}))"
  by (simp add: max_story_drift_of_def fold_story_drift_step)

lemma max_story_drift_of_nonneg: "0 \<le> max_story_drift_of self md"
  by (simp add: max_story_drift_of_Max)

lemma pair_drift_nonneg: "0 \<le> pair_drift md i"
  by (simp add: pair_drift_def)

lemma max_story_drift_of_pairs:
  assumes "1 < floor_num self"
  shows "max_story_drift_of self md = Max (pair_drift md ` {0..<floor_num self - 1})"
proof -
  let ?S = "pair_drift md ` {0..<floor_num self - 1}"
  have ne: "?S \<noteq> {}" and fin: "finite ?S" using assms by auto
  have "pair_drift md 0 \<in> ?S" using assms by auto
  then have "pair_drift md 0 \<le> Max ?S" using fin by simp
  then have "0 \<le> Max ?S" using pair_drift_nonneg [of md 0] by linarith
  then show ?thesis
    unfolding max_story_drift_of_Max using ne fin by (simp add: max_def)
qed

section \<open>The steps of an episode\<close>

lemma begin_episode_fields:
  assumes "begin_episode sv self st = (self1, st1)"
  shows "floor_num self1 = floor_num self" "code_drift self1 = code_drift self"
    "num_steps self1 = num_steps self" "dt self1 = dt self" "acc_data self1 = acc_data self"
    "last_alphavalue self1 = last_alphavalue self"
    "episode_count self1 = episode_count self + 1"
  using assms by (auto simp: begin_episode_def build_model_def Let_def split: if_splits)

lemma begin_episode_rebuild:
  assumes "begin_episode sv self st = (self1, st1)"
  shows "episode_count self1 mod 10 = 1 \<Longrightarrow> wipes st1 = Suc (wipes st) \<and> model_built self1"
    and "episode_count self1 mod 10 \<noteq> 1 \<Longrightarrow> st1 = st \<and> model_built self1 = model_built self"
  using assms by (auto simp: begin_episode_def build_model_def Let_def split: if_splits)

lemma save_floor_disps_env:
  "floor_num self' = floor_num self \<Longrightarrow>
   save_floor_disps self' md fs = save_floor_disps self md fs"
  by (simp add: save_floor_disps_def)

lemma step_unfold:
  assumes "begin_episode sv self st = (self1, st1)"
    and "run_opensees_analysis sv self1 (action + 1) st1 = ((alphavalue, max_disps), st2)"
  shows "step sv self action st fs =
     ((case fst (save_floor_disps self max_disps fs) of
         Inl e \<Rightarrow> Inl e
       | Inr u \<Rightarrow> Inr ([alphavalue], - alphavalue, True, [])),
      self1\<lparr>last_alphavalue := alphavalue\<rparr>, st2,
      snd (save_floor_disps self max_disps fs))"
proof -
  have "save_floor_disps (self1\<lparr>last_alphavalue := alphavalue\<rparr>) max_disps fs =
        save_floor_disps self max_disps fs"
    by (rule save_floor_disps_env) (simp add: begin_episode_fields [OF assms(1)])
  then show ?thesis
    using assms by (simp add: step_def Let_def case_prod_beta split: sum.splits)
qed

lemma step_returned:
  assumes "begin_episode sv self st = (self1, st1)"
    and "run_opensees_analysis sv self1 (action + 1) st1 = ((alphavalue, max_disps), st2)"
    and "step sv self action st fs = (Inr r, self', st', fs')"
  shows "r = ([alphavalue], - alphavalue, True, [])"
  using step_unfold [OF assms(1,2), of fs] assms(3) by (simp split: sum.splits)

lemma step_counts:
  assumes "step sv self action st fs = (res, self', st', fs')"
  shows "episode_count self' = episode_count self + 1"
    and "episode_count self' mod 10 = 1 \<Longrightarrow> wipes st' = wipes st + 2 \<and> model_built self'"
    and "episode_count self' mod 10 \<noteq> 1 \<Longrightarrow>
           wipes st' = wipes st + 1 \<and> model_built self' = model_built self"
proof -
  obtain self1 st1 where b: "begin_episode sv self st = (self1, st1)"
    by (cases "begin_episode sv self st")
  obtain alphavalue max_disps st2 where
    run: "run_opensees_analysis sv self1 (action + 1) st1 = ((alphavalue, max_disps), st2)"
    by (cases "run_opensees_analysis sv self1 (action + 1) st1") auto
  have self': "self' = self1\<lparr>last_alphavalue := alphavalue\<rparr>" and st': "st' = st2"
    using step_unfold [OF b run, of fs] assms by simp_all
  have w: "wipes st2 = Suc (wipes st1)"
    using wipes_run [of sv self1 "action + 1" st1] run by simp
  show "episode_count self' = episode_count self + 1"
    unfolding self' using begin_episode_fields [OF b] by simp
  show "episode_count self' mod 10 = 1 \<Longrightarrow> wipes st' = wipes st + 2 \<and> model_built self'"
    unfolding self' st' using begin_episode_rebuild(1) [OF b] w by simp
  show "episode_count self' mod 10 \<noteq> 1 \<Longrightarrow>
          wipes st' = wipes st + 1 \<and> model_built self' = model_built self"
    unfolding self' st' using begin_episode_rebuild(2) [OF b] w by simp
qed

lemma card_filter_from:
  fixes a b :: int
  shows "card {k \<in> {a..b}. P k} = (if a \<le> b \<and> P a then 1 else 0) + card {k \<in> {a + 1..b}. P k}"
proof (cases "a \<le> b \<and> P a")
  case True
  then have "{k \<in> {a..b}. P k} = insert a {k \<in> {a + 1..b}. P k}" by auto
  moreover have "a \<notin> {k \<in> {a + 1..b}. P k}" by simp
  moreover have "finite {k \<in> {a + 1..b}. P k}"
    by (rule finite_subset [OF _ finite_atLeastAtMost_int [of "a + 1" b]]) auto
  ultimately show ?thesis using True by (simp del: atLeastAtMost_iff)
next
  case False
  then have "{k \<in> {a..b}. P k} = {k \<in> {a + 1..b}. P k}"
    by (auto simp: order_le_less)
  then show ?thesis using False by simp
qed

lemma episodes_rebuilds:
  assumes "episodes sv actions self st fs = (Inr u, self', st', fs')"
  shows "episode_count self' = episode_count self + int (length actions)
       \<and> wipes st' = wipes st + length actions
           + card {k \<in> {episode_count self + 1..episode_count self + int (length actions)}.
                    k mod 10 = 1}"
  using assms
proof (induction actions arbitrary: self st fs)
  case Nil
  then show ?case by simp
next
  case (Cons action actions)
  let ?self0 = "snd (reset self)"
  have ec0: "episode_count ?self0 = episode_count self" by (simp add: reset_def)
  obtain res self1 st1 fs1 where st: "step sv ?self0 action st fs = (res, self1, st1, fs1)"
    by (cases "step sv ?self0 action st fs") auto
  have rest: "episodes sv actions self1 st1 fs1 = (Inr u, self', st', fs')"
    using Cons.prems st by (simp add: case_prod_beta Let_def split: sum.splits)
  have ec1: "episode_count self1 = episode_count self + 1"
    using step_counts(1) [OF st] ec0 by simp
  have w1: "wipes st1 = wipes st + 1 + (if (episode_count self + 1) mod 10 = 1 then 1 else 0)"
    using step_counts(2,3) [OF st] ec1 by auto
  have ih: "episode_count self' = episode_count self1 + int (length actions)
       \<and> wipes st' = wipes st1 + length actions
           + card {k \<in> {episode_count self1 + 1..episode_count self1 + int (length actions)}.
                    k mod 10 = 1}"
    by (rule Cons.IH [OF rest])
  have "card {k \<in> {episode_count self + 1..episode_count self + int (length (action # actions))}.
               k mod 10 = 1}
        = (if (episode_count self + 1) mod 10 = 1 then 1 else 0)
          + card {k \<in> {episode_count self1 + 1..episode_count self1 + int (length actions)}.
                   k mod 10 = 1}"
    by (subst card_filter_from) (simp add: ec1 add.commute add.left_commute)
  then show ?case using ih ec1 w1 by simp
qed

lemma demo_begin_episode:
  "episode_count self = 0 \<Longrightarrow>
   begin_episode sv self st = build_model sv (self\<lparr>episode_count := 1\<rparr>) st"
  by (simp add: begin_episode_def)

lemma build_model_fields [simp]:
  "num_steps (fst (build_model sv self st)) = num_steps self"
  "floor_num (fst (build_model sv self st)) = floor_num self"
  "code_drift (fst (build_model sv self st)) = code_drift self"
  by (simp_all add: build_model_def)

section \<open>The format of a logged number\<close>

lemma scale_down_stop: "\<not> 10 \<le> a \<Longrightarrow> scale_down a e = (a, e)"
  by (subst scale_down.simps) simp

lemma scale_down_go: "10 \<le> a \<Longrightarrow> scale_down a e = scale_down (a / 10) (e + 1)"
  by (subst scale_down.simps) simp

lemma scale_up_stop: "\<not> (0 < a \<and> a < 1) \<Longrightarrow> scale_up a e = (a, e)"
  by (subst scale_up.simps) auto

lemma scale_up_go: "0 < a \<Longrightarrow> a < 1 \<Longrightarrow> scale_up a e = scale_up (a * 10) (e - 1)"
  by (subst scale_up.simps) simp

lemma str_nat_digit: "n < 10 \<Longrightarrow> str_nat n = [digit_char n]"
  by (subst str_nat.simps) simp

lemma str_nat_more: "\<not> n < 10 \<Longrightarrow> str_nat n = str_nat (n div 10) @ [digit_char (n mod 10)]"
  by (subst str_nat.simps) simp

lemmas format_eval = format_6e_def sci_parts_def scale_down_stop scale_down_go scale_up_stop
  scale_up_go round_half_even_def digit_char_def str_nat_digit str_nat_more Let_def

lemma format_6e_zero: "format_6e 0 = ''0.000000e+00''"
  by (simp add: format_eval)

lemma scale_down_range: "0 < a \<Longrightarrow> 0 < fst (scale_down a e) \<and> fst (scale_down a e) < 10"
proof (induction a e rule: scale_down.induct)
  case (1 a e)
  show ?case
  proof (cases "10 \<le> a")
    case True
    then show ?thesis using 1 by (simp add: scale_down_go)
  next
    case False
    then show ?thesis using 1 by (simp add: scale_down_stop)
  qed
qed

lemma scale_up_range:
  "0 < a \<Longrightarrow> a < 10 \<Longrightarrow> 1 \<le> fst (scale_up a e) \<and> fst (scale_up a e) < 10"
proof (induction a e rule: scale_up.induct)
  case (1 a e)
  show ?case
  proof (cases "a < 1")
    case True
    then show ?thesis using 1 by (simp add: scale_up_go)
  next
    case False
    then show ?thesis using 1 by (simp add: scale_up_stop)
  qed
qed

lemma round_half_even_range:
  assumes "1000000 \<le> r" and "r < 10000000"
  shows "1000000 \<le> round_half_even r \<and> round_half_even r \<le> 10000000"
proof -
  have "1000000 \<le> \<lfloor>r\<rfloor>" using assms(1) by (simp add: le_floor_iff)
  moreover have "\<lfloor>r\<rfloor> < 10000000" using assms(2) by (simp add: floor_less_iff)
  ultimately show ?thesis by (auto simp: round_half_even_def Let_def)
qed

lemma sci_parts_range: "0 \<le> fst (sci_parts a) \<and> fst (sci_parts a) < 10000000"
  if "0 \<le> a"
proof (cases "a = 0")
  case True
  then show ?thesis by (simp add: sci_parts_def)
next
  case False
  then have pos: "0 < a" using that by simp
  obtain a1 e1 where d: "scale_down a 0 = (a1, e1)" by (cases "scale_down a 0")
  obtain a2 e2 where u: "scale_up a1 e1 = (a2, e2)" by (cases "scale_up a1 e1")
  have "0 < a1 \<and> a1 < 10" using scale_down_range [OF pos, of 0] d by simp
  then have "1 \<le> a2 \<and> a2 < 10" using scale_up_range [of a1 e1] u by simp
  then have "1000000 \<le> round_half_even (a2 * 1000000)
           \<and> round_half_even (a2 * 1000000) \<le> 10000000"
    by (intro round_half_even_range) simp_all
  then show ?thesis using False by (auto simp: sci_parts_def d u Let_def)
qed

lemma digit_char_digit: "n < 10 \<Longrightarrow> digit_char n \<in> set ''0123456789''"
  unfolding digit_char_def by (rule nth_mem) simp

lemma is_digit_simps [simp]:
  "n < 10 \<Longrightarrow> is_digit (digit_char n)" "\<not> is_digit CHR ''.''" "\<not> is_digit CHR ''-''"
  using digit_char_digit [of n] by (simp_all add: is_digit_def)

lemma digit_char_not_e [simp]: "n < 10 \<Longrightarrow> digit_char n \<noteq> CHR ''e''"
  using digit_char_digit [of n] by auto

lemma digit_char_not_newline [simp]:
  "n < 10 \<Longrightarrow> digit_char n \<noteq> CHR 0x0A" "n < 10 \<Longrightarrow> CHR 0x0A \<noteq> digit_char n"
  using digit_char_digit [of n] by auto

lemma str_nat_no_newline: "CHR 0x0A \<notin> set (str_nat n)"
proof (induction n rule: str_nat.induct)
  case (1 n)
  show ?case
  proof (cases "n < 10")
    case True
    then show ?thesis by (simp add: str_nat_digit)
  next
    case False
    then show ?thesis using 1 by (simp add: str_nat_more)
  qed
qed

lemma format_6e_shape:
  "\<exists>m e. m < 10000000 \<and>
     format_6e x = (if x < 0 then ''-'' else '''')
         @ [digit_char (m div 1000000)] @ ''.''
         @ map (\<lambda>k. digit_char (m div 10 ^ k mod 10)) [5, 4, 3, 2, 1, 0]
         @ ''e'' @ (if e < 0 then ''-'' else ''+'')
         @ (if nat \<bar>e\<bar> < 10 then ''0'' @ str_nat (nat \<bar>e\<bar>) else str_nat (nat \<bar>e\<bar>))"
proof -
  obtain q e where p: "sci_parts \<bar>x\<bar> = (q, e)" by (cases "sci_parts \<bar>x\<bar>")
  have "q < 10000000" using sci_parts_range [of "\<bar>x\<bar>"] p by simp
  then have "nat q < 10000000" by simp
  then show ?thesis
    unfolding format_6e_def p by (intro exI [of _ "nat q"] exI [of _ e]) (simp add: Let_def)
qed

lemma format_6e_one_line: "CHR 0x0A \<notin> set (format_6e x)"
proof -
  obtain m e where m: "m < 10000000" and f: "format_6e x = (if x < 0 then ''-'' else '''')
         @ [digit_char (m div 1000000)] @ ''.''
         @ map (\<lambda>k. digit_char (m div 10 ^ k mod 10)) [5, 4, 3, 2, 1, 0]
         @ ''e'' @ (if e < 0 then ''-'' else ''+'')
         @ (if nat \<bar>e\<bar> < 10 then ''0'' @ str_nat (nat \<bar>e\<bar>) else str_nat (nat \<bar>e\<bar>))"
    using format_6e_shape [of x] by blast
  have "m div 1000000 < 10" using m by simp
  then show ?thesis unfolding f by (simp add: str_nat_no_newline)
qed

lemma format_6e_digits: "significant_digits (format_6e x) = 7"
proof -
  obtain m e where m: "m < 10000000" and f: "format_6e x = (if x < 0 then ''-'' else '''')
         @ [digit_char (m div 1000000)] @ ''.''
         @ map (\<lambda>k. digit_char (m div 10 ^ k mod 10)) [5, 4, 3, 2, 1, 0]
         @ ''e'' @ (if e < 0 then ''-'' else ''+'')
         @ (if nat \<bar>e\<bar> < 10 then ''0'' @ str_nat (nat \<bar>e\<bar>) else str_nat (nat \<bar>e\<bar>))"
    using format_6e_shape [of x] by blast
  have "m div 1000000 < 10" using m by simp
  then show ?thesis unfolding f significant_digits_def significand_def by simp
qed

section \<open>What a call writes to the log files\<close>

lemma appended_simps [simp]:
  "dirs (appended p s fs) = dirs fs"
  "files (appended p s fs) q = (if q = p then Some (content fs p @ s) else files fs q)"
  "content (appended p s fs) q = (if q = p then content fs p @ s else content fs q)"
  by (simp_all add: appended_def content_def)

lemma write_floor_simps [simp]:
  "dirs (write_floor md i fs) = dirs fs"
  "files (write_floor md i fs) q =
     (if q = floor_file (i + 1) then Some (content fs q @ format_6e (md ! i) @ newline)
      else files fs q)"
  "content (write_floor md i fs) q =
     (if q = floor_file (i + 1) then content fs q @ format_6e (md ! i) @ newline
      else content fs q)"
  by (simp_all add: write_floor_def)

lemma fold_write_floor_dirs [simp]: "dirs (fold (write_floor md) xs fs) = dirs fs"
  by (induction xs arbitrary: fs) simp_all

lemma fold_write_floor_other:
  "q \<notin> (\<lambda>i. floor_file (i + 1)) ` set xs \<Longrightarrow>
   files (fold (write_floor md) xs fs) q = files fs q"
  by (induction xs arbitrary: fs) simp_all

lemma fold_write_floor_file:
  "distinct (map (\<lambda>i. floor_file (i + 1)) xs) \<Longrightarrow> i \<in> set xs \<Longrightarrow>
   files (fold (write_floor md) xs fs) (floor_file (i + 1)) =
     Some (content fs (floor_file (i + 1)) @ format_6e (md ! i) @ newline)"
proof (induction xs arbitrary: fs)
  case Nil
  then show ?case by simp
next
  case (Cons x xs)
  show ?case
  proof (cases "i = x")
    case True
    then have "floor_file (i + 1) \<notin> (\<lambda>i. floor_file (i + 1)) ` set xs"
      using Cons.prems(1) by auto
    then show ?thesis using True by (simp add: fold_write_floor_other)
  next
    case False
    then have "i \<in> set xs" using Cons.prems(2) by simp
    moreover have "floor_file (i + 1) \<noteq> floor_file (x + 1)"
    proof
      assume "floor_file (i + 1) = floor_file (x + 1)"
      then have "floor_file (x + 1) \<in> (\<lambda>i. floor_file (i + 1)) ` set xs"
        using \<open>i \<in> set xs\<close> by (metis imageI)
      then show False using Cons.prems(1) by simp
    qed
    ultimately show ?thesis using Cons by simp
  qed
qed

lemma floor_files_10:
  "map (\<lambda>i. floor_file (i + 1)) [0..<10] =
     [''floor_disp/floor1_disp.txt'', ''floor_disp/floor2_disp.txt'',
      ''floor_disp/floor3_disp.txt'', ''floor_disp/floor4_disp.txt'',
      ''floor_disp/floor5_disp.txt'', ''floor_disp/floor6_disp.txt'',
      ''floor_disp/floor7_disp.txt'', ''floor_disp/floor8_disp.txt'',
      ''floor_disp/floor9_disp.txt'', ''floor_disp/floor10_disp.txt'']"
  by (simp add: upt_rec [of _ "10"] floor_file_def str_nat_digit str_nat_more digit_char_def)

lemma floor_files_distinct: "distinct (map (\<lambda>i. floor_file (i + 1)) [0..<10])"
  unfolding floor_files_10 by simp

subsection \<open>When the files can be opened, and when not\<close>

lemma digit_char_not_slash:
  "n < 10 \<Longrightarrow> digit_char n \<noteq> CHR ''/''" "n < 10 \<Longrightarrow> CHR ''/'' \<noteq> digit_char n"
  using digit_char_digit [of n] by auto

lemma str_nat_no_slash: "CHR ''/'' \<notin> set (str_nat n)"
proof (induction n rule: str_nat.induct)
  case (1 n)
  show ?case
  proof (cases "n < 10")
    case True
    then show ?thesis by (simp add: str_nat_digit digit_char_not_slash)
  next
    case False
    then show ?thesis using 1 by (simp add: str_nat_more digit_char_not_slash)
  qed
qed

lemma dirname_floor_file: "dirname (floor_file k) = ''floor_disp''"
proof -
  have "c \<noteq> CHR ''/''" if "c \<in> set (rev ''_disp.txt'' @ rev (str_nat k))" for c
    using that str_nat_no_slash [of k] by auto
  then have "dropWhile (\<lambda>c. c \<noteq> CHR ''/'')
          ((rev ''_disp.txt'' @ rev (str_nat k)) @ rev ''floor_disp/floor'')
        = dropWhile (\<lambda>c. c \<noteq> CHR ''/'') (rev ''floor_disp/floor'')"
    by (rule dropWhile_append2)
  then show ?thesis by (simp add: dirname_def floor_file_def)
qed

lemma floor_file_not_floor_disp: "floor_file k \<noteq> ''floor_disp''"
  by (simp add: floor_file_def)

lemma save_floor_ok:
  "''floor_disp'' \<in> dirs fs \<Longrightarrow> floor_file (i + 1) \<notin> dirs fs \<Longrightarrow>
   save_floor md i fs = Inr (write_floor md i fs)"
  by (simp add: save_floor_def append_file_def dirname_floor_file write_floor_def Let_def)

lemma save_floor_blocked:
  "''floor_disp'' \<notin> dirs fs \<Longrightarrow> files fs ''floor_disp'' = Some c \<Longrightarrow>
   save_floor md i fs = Inl NotADirectoryError"
  by (simp add: save_floor_def append_file_def dirname_floor_file Let_def)

lemma save_floors_ok:
  "''floor_disp'' \<in> dirs fs \<Longrightarrow> \<forall>i \<in> set xs. floor_file (i + 1) \<notin> dirs fs \<Longrightarrow>
   save_floors md xs fs = (Inr (), fold (write_floor md) xs fs)"
  by (induction xs arbitrary: fs) (simp_all add: save_floor_ok)

lemma save_floor_disps_ok:
  assumes "log_writable self fs"
  shows "save_floor_disps self md fs =
           (Inr (), fold (write_floor md) [0..<floor_num self] (os_makedirs ''floor_disp'' fs))"
proof -
  let ?fs = "os_makedirs ''floor_disp'' fs"
  have same: "?fs = fs" if "''floor_disp'' \<in> dirs fs"
    using that by (simp add: os_makedirs_def insert_absorb)
  have pre: "(if \<not> os_path_exists fs ''floor_disp'' then ?fs else fs) = ?fs"
    using assms same by (auto simp: os_path_exists_def log_writable_def)
  have "''floor_disp'' \<in> dirs ?fs" by (simp add: os_makedirs_def)
  moreover have "\<forall>i \<in> set [0..<floor_num self]. floor_file (i + 1) \<notin> dirs ?fs"
    using assms by (simp add: log_writable_def os_makedirs_def floor_file_not_floor_disp)
  ultimately show ?thesis
    unfolding save_floor_disps_def Let_def pre by (rule save_floors_ok)
qed

lemma save_floor_disps_blocked:
  assumes "''floor_disp'' \<notin> dirs fs" and "files fs ''floor_disp'' = Some c"
    and "0 < floor_num self"
  shows "save_floor_disps self md fs = (Inl NotADirectoryError, fs)"
proof -
  have "[0..<floor_num self] = 0 # [1..<floor_num self]"
    using assms(3) by (simp add: upt_conv_Cons)
  then show ?thesis
    using assms(1,2) by (simp add: save_floor_disps_def os_path_exists_def save_floor_blocked)
qed

lemma save_floor_disps_10:
  assumes "floor_num self = 10" and "log_writable self fs"
  shows "fst (save_floor_disps self md fs) = Inr ()"
    and "dirs (snd (save_floor_disps self md fs)) = insert ''floor_disp'' (dirs fs)"
    and "i < 10 \<Longrightarrow> files (snd (save_floor_disps self md fs)) (floor_file (i + 1)) =
           Some (content fs (floor_file (i + 1)) @ format_6e (md ! i) @ newline)"
    and "q \<notin> (\<lambda>i. floor_file (i + 1)) ` {0..<10} \<Longrightarrow>
           files (snd (save_floor_disps self md fs)) q = files fs q"
proof -
  note ok = save_floor_disps_ok [OF assms(2), of md]
  show "fst (save_floor_disps self md fs) = Inr ()" by (simp add: ok)
  show "dirs (snd (save_floor_disps self md fs)) = insert ''floor_disp'' (dirs fs)"
    by (simp add: ok os_makedirs_def)
  show "files (snd (save_floor_disps self md fs)) (floor_file (i + 1)) =
           Some (content fs (floor_file (i + 1)) @ format_6e (md ! i) @ newline)"
    if "i < 10"
    using that assms(1) fold_write_floor_file [OF floor_files_distinct, of i md]
    by (simp add: ok os_makedirs_def content_def)
  show "files (snd (save_floor_disps self md fs)) q = files fs q"
    if "q \<notin> (\<lambda>i. floor_file (i + 1)) ` {0..<10}"
    using that assms(1) fold_write_floor_other [of q "[0..<10]" md]
    by (simp add: ok os_makedirs_def)
qed

lemma log_writable_env:
  "floor_num self' = floor_num self \<Longrightarrow> log_writable self' fs = log_writable self fs"
  by (simp add: log_writable_def)

section \<open>A failing step\<close>

lemma fails_at_history:
  "fails_at sv self k st \<Longrightarrow> k < n \<Longrightarrow>
   history sv self n st = history sv self k st \<and> length (history sv self k st) = k"
proof (induction k arbitrary: n st)
  case 0
  then obtain n' where n: "n = Suc n'" by (cases n) auto
  show ?case using 0 unfolding n by (simp add: case_prod_beta)
next
  case (Suc k)
  then obtain n' where n: "n = Suc n'" and k: "k < n'" by (cases n) auto
  obtain ok st1 where a: "ops_analyze sv 1 (dt self) st = (ok, st1)"
    by (cases "ops_analyze sv 1 (dt self) st")
  have ok: "ok = 0" and f: "fails_at sv self k st1" using Suc.prems(1) a by simp_all
  show ?case using Suc.IH [OF f k] unfolding n by (simp add: a ok)
qed

lemma run_fails_at:
  assumes "fails_at sv self k (prepared sv self damper_floor st)" and "k < num_steps self"
  shows "snd (fst (run_opensees_analysis sv self damper_floor st)) =
           snd (time_history sv self k (prepared sv self damper_floor st)
                  (replicate (floor_num self) 0))"
    and "length (history sv self (num_steps self) (prepared sv self damper_floor st)) = k"
  using fails_at_history [OF assms] by (simp_all add: run_max_disps time_history_history)

lemma max_story_drift_of_zeros: "max_story_drift_of self (replicate (floor_num self) 0) = 0"
proof -
  have "pair_drift (replicate (floor_num self) 0) i = 0" if "i < floor_num self - 1" for i
    using that by (simp add: pair_drift_def)
  then have eq: "insert 0 (pair_drift (replicate (floor_num self) 0) ` {0..<floor_num self - 1})
      = {0}" by auto
  show ?thesis unfolding max_story_drift_of_Max eq by simp
qed

lemma run_fails_first:
  assumes "fails_at sv self 0 (prepared sv self damper_floor st)"
  shows "snd (fst (run_opensees_analysis sv self damper_floor st)) = replicate (floor_num self) 0"
proof (cases "num_steps self")
  case 0
  then show ?thesis by (simp add: run_max_disps)
next
  case (Suc n)
  then show ?thesis using assms by (simp add: run_max_disps case_prod_beta)
qed

lemma step_env_fields:
  assumes "step sv self action st fs = (res, self', st', fs')"
  shows "num_steps self' = num_steps self" "floor_num self' = floor_num self"
    "code_drift self' = code_drift self" "dt self' = dt self"
proof -
  obtain self1 st1 where b: "begin_episode sv self st = (self1, st1)"
    by (cases "begin_episode sv self st")
  obtain alphavalue max_disps st2 where
    run: "run_opensees_analysis sv self1 (action + 1) st1 = ((alphavalue, max_disps), st2)"
    by (cases "run_opensees_analysis sv self1 (action + 1) st1") auto
  have self': "self' = self1\<lparr>last_alphavalue := alphavalue\<rparr>"
    using step_unfold [OF b run, of fs] assms by simp
  show "num_steps self' = num_steps self" "floor_num self' = floor_num self"
    "code_drift self' = code_drift self" "dt self' = dt self"
    unfolding self' using begin_episode_fields [OF b] by simp_all
qed

lemma reset_fields [simp]:
  "num_steps (snd (reset self)) = num_steps self"
  "floor_num (snd (reset self)) = floor_num self"
  "episode_count (snd (reset self)) = episode_count self"
  by (simp_all add: reset_def)

section \<open>What a step returns\<close>

lemma step_writable:
  assumes "begin_episode sv self st = (self1, st1)"
    and "run_opensees_analysis sv self1 (action + 1) st1 = ((alphavalue, max_disps), st2)"
    and "log_writable self fs"
  shows "step sv self action st fs =
     (Inr ([alphavalue], - alphavalue, True, []), self1\<lparr>last_alphavalue := alphavalue\<rparr>, st2,
      snd (save_floor_disps self max_disps fs))"
  using step_unfold [OF assms(1,2), of fs] save_floor_disps_ok [OF assms(3), of max_disps]
  by simp

lemma step_blocked:
  assumes "begin_episode sv self st = (self1, st1)"
    and "run_opensees_analysis sv self1 (action + 1) st1 = ((alphavalue, max_disps), st2)"
    and "''floor_disp'' \<notin> dirs fs" and "files fs ''floor_disp'' = Some c"
    and "0 < floor_num self"
  shows "step sv self action st fs =
     (Inl NotADirectoryError, self1\<lparr>last_alphavalue := alphavalue\<rparr>, st2, fs)"
  using step_unfold [OF assms(1,2), of fs]
    save_floor_disps_blocked [OF assms(3,4,5), of max_disps]
  by simp

lemma step_raised:
  assumes "fst (step sv self action st fs) = Inl e"
  shows "\<not> log_writable self fs"
proof
  assume w: "log_writable self fs"
  obtain self1 st1 where b: "begin_episode sv self st = (self1, st1)"
    by (cases "begin_episode sv self st")
  obtain alphavalue max_disps st2 where
    run: "run_opensees_analysis sv self1 (action + 1) st1 = ((alphavalue, max_disps), st2)"
    by (cases "run_opensees_analysis sv self1 (action + 1) st1") auto
  show False using step_writable [OF b run w] assms by simp
qed

section \<open>The concrete inputs evaluated\<close>

lemma empty_fs_writable [simp]: "log_writable self empty_fs"
  by (simp add: log_writable_def empty_fs_def)

lemma blocked_fs_fields [simp]:
  "''floor_disp'' \<notin> dirs blocked_fs" "files blocked_fs ''floor_disp'' = Some ''x''"
  "\<not> log_writable self blocked_fs"
  by (simp_all add: blocked_fs_def log_writable_def)

lemma logged_fs_writable:
  "dirs fs = {''floor_disp''} \<Longrightarrow> log_writable self fs"
  by (simp add: log_writable_def floor_file_not_floor_disp)



lemma dyn_ops [simp]:
  "dyn (ops_wipe sv st) = fresh sv"
  "dyn (ops_model ndm ndf st) = dyn st"
  "dyn (ops_node nodeTag x st) = dyn st"
  "dyn (ops_fix nodeTag c st) = dyn st"
  "dyn (ops_mass nodeTag m st) = dyn st"
  "dyn (ops_uniaxialMaterial matType matTag k st) = dyn st"
  "dyn (ops_config cmd st) = dyn st"
  "dyn (ops_element eleType eleTag iNode jNode matTag dir st) = dyn st"
  by (simp_all add: ops_wipe_def ops_model_def ops_node_def ops_fix_def ops_mass_def
        ops_uniaxialMaterial_def ops_element_def ops_config_def)

lemma fold_dyn [simp]:
  "dyn (fold (\<lambda>i. ops_node (f i) (g i)) xs st) = dyn st"
  "dyn (fold (\<lambda>nd. ops_mass (f nd) m) xs st) = dyn st"
  "dyn (snd (fold (link_floors matTag) xs p)) = dyn (snd p)"
    by (induction xs arbitrary: st p) (simp_all add: link_floors_def case_prod_beta)

lemma dyn_prepared [simp]: "dyn (prepared sv self damper_floor st) = fresh sv"
  by (simp add: prepared_def configure_analysis_def build_structure_def Let_def case_prod_beta
      del: upt_Suc)

lemma demo_env_fields [simp]:
  "num_steps demo_env = 3" "floor_num demo_env = 10" "code_drift demo_env = 1/100"
  "dt demo_env = 1/50" "episode_count demo_env = 0" "last_alphavalue demo_env = 0"
  "model_built demo_env = False"
  by (simp_all add: demo_env_def init_env_def reset_def)

lemma demo_env_exact_fields [simp]:
  "num_steps demo_env_exact = 3" "floor_num demo_env_exact = 10"
  "code_drift demo_env_exact = 1/3000" "episode_count demo_env_exact = 0"
  by (simp_all add: demo_env_exact_def init_env_def reset_def)

lemma demo_floor_history:
  "num_steps self = 3 \<Longrightarrow>
   floor_history demo_solver self d st i = [(int i + 2) / 2000, - (int i + 2) / 1000]"
  by (simp add: floor_history_def numeral_3_eq_3 ops_analyze_def demo_solver_def)

lemma demo_max_disps:
  "num_steps self = 3 \<Longrightarrow> floor_num self = 10 \<Longrightarrow> i < 10 \<Longrightarrow>
   snd (fst (run_opensees_analysis demo_solver self d st)) ! i = - (int i + 2) / 1000"
  by (simp add: run_max_disps_nth demo_floor_history peak_step_def)

lemma demo_max_story_drift:
  assumes "num_steps self = 3" and "floor_num self = 10"
  shows "max_story_drift_of self (snd (fst (run_opensees_analysis demo_solver self d st)))
     = 1/3000"
proof -
  let ?md = "snd (fst (run_opensees_analysis demo_solver self d st))"
  have pd: "pair_drift ?md i = 1/3000" if "i < 9" for i
    using that demo_max_disps [OF assms, of i d st] demo_max_disps [OF assms, of "i + 1" d st]
    by (simp add: pair_drift_def)
  have "pair_drift ?md ` {0..<9} = (\<lambda>i. 1/3000) ` {0..<9::nat}"
    by (rule image_cong) (simp_all only: pd atLeastLessThan_iff)
  moreover have "(\<lambda>i::nat. 1/3000::real) ` {0..<9} = {1/3000}"
    by (rule image_constant [of 0]) simp
  ultimately have "pair_drift ?md ` {0..<9} = {1/3000}" by simp
  then show ?thesis using assms by (simp add: max_story_drift_of_pairs)
qed

lemma demo_alphavalue:
  "num_steps self = 3 \<Longrightarrow> floor_num self = 10 \<Longrightarrow>
   fst (fst (run_opensees_analysis demo_solver self d st)) = \<bar>1/3000 - code_drift self\<bar>"
  by (subst run_alphavalue) (simp add: demo_max_story_drift)

lemma fails_at_failing_solver [simp]: "fails_at failing_solver self 0 st"
  by (simp add: ops_analyze_def failing_solver_def)

lemma fails_at_demo_solver [simp]:
  "fails_at demo_solver self 2 (prepared demo_solver self d st)"
  by (simp add: numeral_2_eq_2 ops_analyze_def demo_solver_def)

lemma ops_analyze_failing [simp]: "fst (ops_analyze failing_solver numIncr d st) = - 3"
  by (simp add: ops_analyze_def failing_solver_def)

lemma failing_max_disps:
  "snd (fst (run_opensees_analysis failing_solver self d st)) = replicate (floor_num self) 0"
proof (cases "num_steps self")
  case 0
  then show ?thesis by (simp add: run_max_disps)
next
  case (Suc n)
  then show ?thesis by (simp add: run_max_disps ops_analyze_def failing_solver_def)
qed

lemma format_demo:
  "format_6e (- (1/500)) = ''-2.000000e-03''"
  "format_6e (- (11/1000)) = ''-1.100000e-02''"
  by (simp_all add: format_eval)

lemma significant_digits_demo: "significant_digits ''-2.000000e-03'' = 7"
  by (simp add: significant_digits_def significand_def is_digit_def)

lemma floor_file_demo:
  "floor_file (Suc 0) = ''floor_disp/floor1_disp.txt''"
  "floor_file 10 = ''floor_disp/floor10_disp.txt''"
  by (simp_all add: floor_file_def str_nat_digit str_nat_more digit_char_def)

lemma demo_step_log:
  assumes "num_steps self = 3" and "floor_num self = 10" and "log_writable self fs"
    and "step demo_solver self action st fs = (res, self', st', fs')"
    and "i < 10"
  shows "files fs' (floor_file (i + 1)) =
           Some (content fs (floor_file (i + 1)) @ format_6e (- (int i + 2) / 1000) @ newline)"
proof -
  obtain self1 st1 where b: "begin_episode demo_solver self st = (self1, st1)"
    by (cases "begin_episode demo_solver self st")
  obtain alphavalue max_disps st2 where run:
    "run_opensees_analysis demo_solver self1 (action + 1) st1 = ((alphavalue, max_disps), st2)"
    by (cases "run_opensees_analysis demo_solver self1 (action + 1) st1") auto
  have ns1: "num_steps self1 = 3" and fl1: "floor_num self1 = 10"
    using begin_episode_fields [OF b] assms(1,2) by simp_all
  have md: "max_disps ! i = - (int i + 2) / 1000"
    using demo_max_disps [OF ns1 fl1 assms(5), of "action + 1" st1] run by simp
  have "fs' = snd (save_floor_disps self max_disps fs)"
    using step_unfold [OF b run, of fs] assms(4) by simp
  then show ?thesis
    using save_floor_disps_10(3) [OF assms(2,3,5), of max_disps] md by simp
qed

section \<open>The claims\<close>

text \<open>
  C1. With \<open>floor_num = 10\<close>, a call of \<^verbatim>\<open>run_opensees_analysis\<close> with a damper
  floor from 1 to 9 leaves a model of exactly ten \<^verbatim>\<open>twoNodeLink\<close> elements: the
  nine links between consecutive floor nodes and one more, with tag 10, between the
  nodes \<open>damper_floor\<close> and \<open>damper_floor + 1\<close>. With the damper floor 10 the model
  has exactly the nine links and no damper element. The function has no error branch,
  and what the solver held before the call does not matter, as the model is wiped first.
\<close>

theorem damper_link_count:
  assumes "floor_num self = 10"
    and "run_opensees_analysis sv self damper_floor st = (res, st')"
  shows "(1 \<le> damper_floor \<and> damper_floor \<le> 9 \<longrightarrow>
            elements st' = map floor_link [1..<10] @ [damper_link 10 damper_floor]
          \<and> link_count st' = 10)
       \<and> (damper_floor = 10 \<longrightarrow>
            elements st' = map floor_link [1..<10] \<and> link_count st' = 9)"
proof -
  have fl: "floor_num self = Suc 9" using assms(1) by simp
  have st': "st' = snd (run_opensees_analysis sv self damper_floor st)"
    using assms(2) by simp
  have els: "elements st' = map floor_link [1..<10] @
     (if 1 \<le> damper_floor \<and> damper_floor < 10 then [damper_link 10 damper_floor] else [])"
    unfolding st' using elements_run [OF fl, of sv damper_floor st] by (simp del: upt_Suc)
  have cnt: "link_count st' = length (elements st')"
    unfolding link_count_def els by (auto simp: floor_link_def damper_link_def simp del: upt_Suc)
  show ?thesis using els cnt by (auto simp del: upt_Suc upt_rec_numeral)
qed

theorem damper_link_count_witness:
  "floor_num demo_env = 10 \<and>
   (\<exists>res st'. run_opensees_analysis demo_solver demo_env 5 empty_ops = (res, st') \<and>
      (1::int) \<le> 5 \<and> (5::int) \<le> 9 \<and>
      elements st' = map floor_link [1..<10] @ [damper_link 10 5] \<and> link_count st' = 10) \<and>
   (\<exists>res st'. run_opensees_analysis demo_solver demo_env 10 empty_ops = (res, st') \<and>
      elements st' = map floor_link [1..<10] \<and> link_count st' = 9)"
proof -
  have fl: "floor_num demo_env = 10" by (simp add: demo_env_def)
  obtain res5 st5 where r5: "run_opensees_analysis demo_solver demo_env 5 empty_ops = (res5, st5)"
    by (cases "run_opensees_analysis demo_solver demo_env 5 empty_ops")
  obtain res10 st10 where
    r10: "run_opensees_analysis demo_solver demo_env 10 empty_ops = (res10, st10)"
    by (cases "run_opensees_analysis demo_solver demo_env 10 empty_ops")
  show ?thesis
    using fl damper_link_count [OF fl r5] damper_link_count [OF fl r10] r5 r10 by simp
qed

text \<open>
  C2 (as amended). For every floor \<open>i\<close>, the returned entry \<open>max_disps[i]\<close> is what the
  loop keeps of the displacement history of node \<open>i + 2\<close> over the successfully analysed
  steps, independently of the other floors: a displacement of that history itself, with
  its sign (or the initial 0.0), whose absolute value is the maximum of the absolute
  displacements (0 when no step succeeded). The entry is not the maximum absolute
  displacement: it is negative when the floor stood furthest out on the negative side,
  as in the run of the counterexample, where floor 1 ends at -0.002 while the maximum
  absolute displacement is 0.002.
\<close>

theorem max_disps_signed_peak:
  assumes "run_opensees_analysis sv self damper_floor st = ((alphavalue, max_disps), st')"
    and "i < floor_num self"
  shows "max_disps ! i = fold peak_step (floor_history sv self damper_floor st i) 0
       \<and> max_disps ! i \<in> insert 0 (set (floor_history sv self damper_floor st i))
       \<and> \<bar>max_disps ! i\<bar> = Max (insert 0 (abs ` set (floor_history sv self damper_floor st i)))"
proof -
  have md: "max_disps = snd (fst (run_opensees_analysis sv self damper_floor st))"
    using assms(1) by simp
  have eq: "max_disps ! i = fold peak_step (floor_history sv self damper_floor st i) 0"
    unfolding md using assms(2) by (rule run_max_disps_nth)
  show ?thesis
    unfolding eq using fold_peak_step_mem [of "floor_history sv self damper_floor st i" 0]
      fold_peak_step_abs [of "floor_history sv self damper_floor st i" 0]
    by simp
qed

theorem max_disps_signed_peak_counterexample:
  "snd (fst (run_opensees_analysis demo_solver demo_env 5 empty_ops)) ! 0 = - 1/500 \<and>
   Max (abs ` set (floor_history demo_solver demo_env 5 empty_ops 0)) = 1/500 \<and>
   snd (fst (run_opensees_analysis demo_solver demo_env 5 empty_ops)) ! 0
     \<noteq> Max (abs ` set (floor_history demo_solver demo_env 5 empty_ops 0))"
proof -
  have "snd (fst (run_opensees_analysis demo_solver demo_env 5 empty_ops)) ! 0 = - 1/500"
    by (simp add: demo_max_disps)
  moreover have "Max (abs ` set (floor_history demo_solver demo_env 5 empty_ops 0)) = 1/500"
    by (simp add: demo_floor_history)
  ultimately show ?thesis by simp
qed

theorem max_disps_signed_peak_witness:
  "(0::nat) < floor_num demo_env \<and>
   (\<exists>alphavalue max_disps st'.
      run_opensees_analysis demo_solver demo_env 5 empty_ops = ((alphavalue, max_disps), st') \<and>
      max_disps ! 0 = - 1/500 \<and>
      max_disps ! 0 \<in> {0, 1/1000, - 1/500} \<and>
      \<bar>max_disps ! 0\<bar> = Max {0, 1/1000, 1/500})"
proof -
  have pos: "(0::nat) < floor_num demo_env" by simp
  obtain alphavalue max_disps st' where
    run: "run_opensees_analysis demo_solver demo_env 5 empty_ops = ((alphavalue, max_disps), st')"
    by (cases "run_opensees_analysis demo_solver demo_env 5 empty_ops") auto
  show ?thesis
    using max_disps_signed_peak [OF run pos] run
    by (simp add: demo_floor_history peak_step_def)
qed

text \<open>
  C3. The reward in the tuple that \<^verbatim>\<open>step\<close> returns is the negated alphavalue of the
  episode's call of \<^verbatim>\<open>run_opensees_analysis\<close>; it is never positive, and it is 0
  exactly when the maximum story drift equals the drift limit.
\<close>

theorem reward_negated_alphavalue:
  assumes "begin_episode sv self st = (self1, st1)"
    and "run_opensees_analysis sv self1 (action + 1) st1 = ((alphavalue, max_disps), st2)"
    and "step sv self action st fs = (Inr (next_state, reward, dn, info), self', st', fs')"
  shows "reward = - alphavalue \<and> reward \<le> 0
       \<and> (reward = 0 \<longleftrightarrow> max_story_drift_of self max_disps = code_drift self)"
proof -
  have r: "reward = - alphavalue"
    using step_returned [OF assms] by simp
  have "alphavalue = fst (fst (run_opensees_analysis sv self1 (action + 1) st1))"
    and "max_disps = snd (fst (run_opensees_analysis sv self1 (action + 1) st1))"
    using assms(2) by simp_all
  then have "alphavalue = \<bar>max_story_drift_of self1 max_disps - code_drift self1\<bar>"
    by (simp add: run_alphavalue [symmetric])
  moreover have "max_story_drift_of self1 max_disps = max_story_drift_of self max_disps"
    by (simp add: max_story_drift_of_def begin_episode_fields [OF assms(1)])
  ultimately have "alphavalue = \<bar>max_story_drift_of self max_disps - code_drift self\<bar>"
    by (simp add: begin_episode_fields [OF assms(1)])
  with r show ?thesis by auto
qed

theorem reward_negated_alphavalue_witness:
  "(let (self1, st1) = begin_episode demo_solver demo_env empty_ops;
        ((alphavalue, max_disps), st2) = run_opensees_analysis demo_solver self1 (4 + 1) st1
    in fst (step demo_solver demo_env 4 empty_ops empty_fs)
         = Inr ([29/3000], - (29/3000), True, []) \<and>
       alphavalue = 29/3000 \<and> - (29/3000) \<le> (0::real) \<and> - (29/3000) \<noteq> (0::real) \<and>
       max_story_drift_of demo_env max_disps = 1/3000 \<and> code_drift demo_env = 1/100) \<and>
   (let (self1, st1) = begin_episode demo_solver demo_env_exact empty_ops;
        ((alphavalue, max_disps), st2) = run_opensees_analysis demo_solver self1 (4 + 1) st1
    in fst (step demo_solver demo_env_exact 4 empty_ops empty_fs) = Inr ([0], 0, True, []) \<and>
       alphavalue = 0 \<and>
       max_story_drift_of demo_env_exact max_disps = 1/3000 \<and>
       code_drift demo_env_exact = 1/3000)"
proof -
  have one:
    "(let (self1, st1) = begin_episode demo_solver self empty_ops;
          ((alphavalue, max_disps), st2) = run_opensees_analysis demo_solver self1 (4 + 1) st1
      in fst (step demo_solver self 4 empty_ops empty_fs)
           = Inr ([alphavalue], - alphavalue, True, []) \<and>
         alphavalue = \<bar>1/3000 - code_drift self\<bar> \<and> - alphavalue \<le> 0 \<and>
         (- alphavalue = 0 \<longleftrightarrow> 1/3000 = code_drift self) \<and>
         max_story_drift_of self max_disps = 1/3000)"
    if ns: "num_steps self = 3" and fl: "floor_num self = 10" for self
  proof -
    obtain self1 st1 where b: "begin_episode demo_solver self empty_ops = (self1, st1)"
      by (cases "begin_episode demo_solver self empty_ops")
    have ns1: "num_steps self1 = 3" and fl1: "floor_num self1 = 10"
      and cd1: "code_drift self1 = code_drift self"
      using begin_episode_fields [OF b] ns fl by simp_all
    obtain alphavalue max_disps st2 where run:
      "run_opensees_analysis demo_solver self1 (4 + 1) st1 = ((alphavalue, max_disps), st2)"
      by (cases "run_opensees_analysis demo_solver self1 (4 + 1) st1") auto
    have st: "step demo_solver self 4 empty_ops empty_fs =
        (Inr ([alphavalue], - alphavalue, True, []), self1\<lparr>last_alphavalue := alphavalue\<rparr>,
         st2, snd (save_floor_disps self max_disps empty_fs))"
      by (rule step_writable [OF b run]) simp
    have av: "alphavalue = \<bar>1/3000 - code_drift self\<bar>"
      using demo_alphavalue [OF ns1 fl1, of "4 + 1" st1] run cd1 by simp
    have "max_story_drift_of self1 max_disps = 1/3000"
      using demo_max_story_drift [OF ns1 fl1, of "4 + 1" st1] run by simp
    then have msd: "max_story_drift_of self max_disps = 1/3000"
      by (simp add: max_story_drift_of_def fl fl1)
    have "- alphavalue = - alphavalue \<and> - alphavalue \<le> 0
       \<and> (- alphavalue = 0 \<longleftrightarrow> max_story_drift_of self max_disps = code_drift self)"
      by (rule reward_negated_alphavalue [OF b run st])
    then show ?thesis
      unfolding b run st Let_def prod.case using av msd by simp
  qed
  have "\<bar>1/3000 - code_drift demo_env\<bar> = 29/3000" by simp
  then show ?thesis
    using one [of demo_env] one [of demo_env_exact]
    by (simp add: Let_def case_prod_beta)
qed

text \<open>
  C4. The alphavalue that \<^verbatim>\<open>run_opensees_analysis\<close> returns is the absolute deviation
  of the maximum story drift from the drift limit, and the maximum story drift is the
  maximum, over the nine pairs of consecutive floors \<open>i\<close>, \<open>i + 1\<close> with \<open>i\<close> from 0 to 8,
  of the absolute difference of the two returned entries divided by the story height 3.
\<close>

theorem alphavalue_drift_deviation:
  assumes "floor_num self = 10"
    and "run_opensees_analysis sv self damper_floor st = ((alphavalue, max_disps), st')"
  shows "max_story_drift_of self max_disps =
           Max ((\<lambda>i. \<bar>max_disps ! (i + 1) - max_disps ! i\<bar> / 3) ` {0..<9})
       \<and> alphavalue = \<bar>max_story_drift_of self max_disps - code_drift self\<bar>
       \<and> length max_disps = 10"
proof -
  have md: "max_disps = snd (fst (run_opensees_analysis sv self damper_floor st))"
    and av: "alphavalue = fst (fst (run_opensees_analysis sv self damper_floor st))"
    using assms(2) by simp_all
  have "max_story_drift_of self max_disps = Max (pair_drift max_disps ` {0..<9})"
    using max_story_drift_of_pairs [of self max_disps] assms(1) by simp
  moreover have "pair_drift max_disps = (\<lambda>i. \<bar>max_disps ! (i + 1) - max_disps ! i\<bar> / 3)"
    by (rule ext) (simp add: pair_drift_def)
  moreover have "alphavalue = \<bar>max_story_drift_of self max_disps - code_drift self\<bar>"
    unfolding md av by (rule run_alphavalue)
  moreover have "length max_disps = 10"
    unfolding md using assms(1) by simp
  ultimately show ?thesis by simp
qed

theorem alphavalue_drift_deviation_witness:
  "floor_num demo_env = 10 \<and>
   (\<exists>alphavalue max_disps st'.
      run_opensees_analysis demo_solver demo_env 5 empty_ops = ((alphavalue, max_disps), st') \<and>
      Max ((\<lambda>i. \<bar>max_disps ! (i + 1) - max_disps ! i\<bar> / 3) ` {0..<9}) = 1/3000 \<and>
      alphavalue = \<bar>1/3000 - 1/100\<bar> \<and> alphavalue = 29/3000 \<and> length max_disps = 10)"
proof -
  have fl: "floor_num demo_env = 10" by simp
  obtain alphavalue max_disps st' where
    run: "run_opensees_analysis demo_solver demo_env 5 empty_ops = ((alphavalue, max_disps), st')"
    by (cases "run_opensees_analysis demo_solver demo_env 5 empty_ops") auto
  have "max_story_drift_of demo_env max_disps = 1/3000"
    using demo_max_story_drift [of demo_env 5 empty_ops] run by simp
  then show ?thesis
    using alphavalue_drift_deviation [OF fl run] run by simp
qed

text \<open>
  C5. When the solver's analyze reports a status other than 0, after \<open>k\<close> successful
  steps and before the end of the record, the loop ends there and nothing is raised:
  \<^verbatim>\<open>run_opensees_analysis\<close> returns the maxima of the first \<open>k\<close> steps, as a time
  history of only \<open>k\<close> steps collects them, and the alphavalue computed from them. Where
  the log files can be opened, \<^verbatim>\<open>step\<close> then returns its tuple as in every episode,
  with the reward \<open>- alphavalue\<close> and \<open>done\<close> true, \<^verbatim>\<open>last_alphavalue\<close> is the new
  alphavalue, and each of the ten log files has the line of its floor's maximum after
  what it held before.
\<close>

theorem solver_failure_not_fatal:
  assumes "floor_num self = 10" and "log_writable self fs"
    and "begin_episode sv self st = (self1, st1)"
    and "fails_at sv self1 k (prepared sv self1 (action + 1) st1)"
    and "k < num_steps self"
  shows "\<exists>alphavalue max_disps st2 next_state fs'.
      run_opensees_analysis sv self1 (action + 1) st1 = ((alphavalue, max_disps), st2)
    \<and> length (history sv self1 (num_steps self1) (prepared sv self1 (action + 1) st1)) = k
    \<and> max_disps = snd (time_history sv self1 k (prepared sv self1 (action + 1) st1)
                          (replicate (floor_num self1) 0))
    \<and> alphavalue = \<bar>max_story_drift_of self1 max_disps - code_drift self1\<bar>
    \<and> step sv self action st fs =
        (Inr (next_state, - alphavalue, True, []), self1\<lparr>last_alphavalue := alphavalue\<rparr>,
         st2, fs')
    \<and> (\<forall>i<10. files fs' (floor_file (i + 1)) =
          Some (content fs (floor_file (i + 1)) @ format_6e (max_disps ! i) @ newline))"
proof -
  obtain alphavalue max_disps st2 where
    run: "run_opensees_analysis sv self1 (action + 1) st1 = ((alphavalue, max_disps), st2)"
    by (cases "run_opensees_analysis sv self1 (action + 1) st1") auto
  have k: "k < num_steps self1" using assms(5) begin_episode_fields [OF assms(3)] by simp
  have md: "max_disps = snd (time_history sv self1 k (prepared sv self1 (action + 1) st1)
                          (replicate (floor_num self1) 0))"
    using run_fails_at(1) [OF assms(4) k] run by simp
  have len: "length (history sv self1 (num_steps self1)
      (prepared sv self1 (action + 1) st1)) = k"
    by (rule run_fails_at(2) [OF assms(4) k])
  have av: "alphavalue = \<bar>max_story_drift_of self1 max_disps - code_drift self1\<bar>"
    using run_alphavalue [of sv self1 "action + 1" st1] run by simp
  have st: "step sv self action st fs =
     (Inr ([alphavalue], - alphavalue, True, []), self1\<lparr>last_alphavalue := alphavalue\<rparr>, st2,
      snd (save_floor_disps self max_disps fs))"
    by (rule step_writable [OF assms(3) run assms(2)])
  have lines: "\<forall>i<10. files (snd (save_floor_disps self max_disps fs)) (floor_file (i + 1)) =
          Some (content fs (floor_file (i + 1)) @ format_6e (max_disps ! i) @ newline)"
    using save_floor_disps_10(3) [OF assms(1,2), of _ max_disps] by simp
  show ?thesis
    using run len md av st lines by blast
qed

theorem solver_failure_not_fatal_witness:
  "floor_num demo_env = 10 \<and> log_writable demo_env empty_fs \<and> (2::nat) < num_steps demo_env \<and>
   (let (self1, st1) = begin_episode demo_solver demo_env empty_ops
    in fails_at demo_solver self1 2 (prepared demo_solver self1 (4 + 1) st1) \<and>
       (\<exists>alphavalue max_disps st2 next_state fs'.
          run_opensees_analysis demo_solver self1 (4 + 1) st1 = ((alphavalue, max_disps), st2)
        \<and> length (history demo_solver self1 (num_steps self1)
                    (prepared demo_solver self1 (4 + 1) st1)) = 2
        \<and> alphavalue = 29/3000
        \<and> step demo_solver demo_env 4 empty_ops empty_fs =
            (Inr (next_state, - (29/3000), True, []), self1\<lparr>last_alphavalue := 29/3000\<rparr>,
             st2, fs')
        \<and> files fs' ''floor_disp/floor1_disp.txt'' = Some (''-2.000000e-03'' @ newline)
        \<and> files fs' ''floor_disp/floor10_disp.txt'' = Some (''-1.100000e-02'' @ newline)))"
proof -
  obtain self1 st1 where b: "begin_episode demo_solver demo_env empty_ops = (self1, st1)"
    by (cases "begin_episode demo_solver demo_env empty_ops")
  have f: "fails_at demo_solver self1 2 (prepared demo_solver self1 (4 + 1) st1)" by simp
  have k: "(2::nat) < num_steps demo_env" by simp
  have fl: "floor_num demo_env = 10" by simp
  have w: "log_writable demo_env empty_fs" by simp
  have ns1: "num_steps self1 = 3" and fl1: "floor_num self1 = 10"
    and cd1: "code_drift self1 = 1/100"
    using begin_episode_fields [OF b] by simp_all
  obtain alphavalue max_disps st2 next_state fs' where
    run: "run_opensees_analysis demo_solver self1 (4 + 1) st1 = ((alphavalue, max_disps), st2)"
    and len: "length (history demo_solver self1 (num_steps self1)
                    (prepared demo_solver self1 (4 + 1) st1)) = 2"
    and st: "step demo_solver demo_env 4 empty_ops empty_fs =
        (Inr (next_state, - alphavalue, True, []), self1\<lparr>last_alphavalue := alphavalue\<rparr>,
         st2, fs')"
    and lines: "\<forall>i<10. files fs' (floor_file (i + 1)) =
          Some (content empty_fs (floor_file (i + 1)) @ format_6e (max_disps ! i) @ newline)"
    using solver_failure_not_fatal [OF fl w b f k] by blast
  have av: "alphavalue = 29/3000"
    using demo_alphavalue [OF ns1 fl1, of "4 + 1" st1] cd1 run by simp
  have md: "max_disps ! i = - (int i + 2) / 1000" if "i < 10" for i
    using demo_max_disps [OF ns1 fl1 that, of "4 + 1" st1] run by simp
  have a1: "files fs' ''floor_disp/floor1_disp.txt'' = Some (''-2.000000e-03'' @ newline)"
    using lines [rule_format, of 0] md [of 0]
    by (simp add: floor_file_demo format_demo content_def empty_fs_def)
  have a10: "files fs' ''floor_disp/floor10_disp.txt'' = Some (''-1.100000e-02'' @ newline)"
    using lines [rule_format, of 9] md [of 9]
    by (simp add: floor_file_demo format_demo content_def empty_fs_def)
  have "\<exists>alphavalue max_disps st2 next_state fs'.
          run_opensees_analysis demo_solver self1 (4 + 1) st1 = ((alphavalue, max_disps), st2)
        \<and> length (history demo_solver self1 (num_steps self1)
                    (prepared demo_solver self1 (4 + 1) st1)) = 2
        \<and> alphavalue = 29/3000
        \<and> step demo_solver demo_env 4 empty_ops empty_fs =
            (Inr (next_state, - (29/3000), True, []), self1\<lparr>last_alphavalue := 29/3000\<rparr>,
             st2, fs')
        \<and> files fs' ''floor_disp/floor1_disp.txt'' = Some (''-2.000000e-03'' @ newline)
        \<and> files fs' ''floor_disp/floor10_disp.txt'' = Some (''-1.100000e-02'' @ newline)"
    using run len av st [unfolded av] a1 a10 by blast
  then show ?thesis
    unfolding b Let_def prod.case using f k fl w by blast
qed

text \<open>
  C6. In every call of \<^verbatim>\<open>step\<close> the episode counter goes up by one, and
  \<^verbatim>\<open>build_model\<close> is called exactly when the new count is 1 modulo 10: then the solver
  is wiped twice in the call (by \<^verbatim>\<open>build_model\<close> and by \<^verbatim>\<open>run_opensees_analysis\<close>)
  and \<^verbatim>\<open>model_built\<close> holds afterwards; otherwise the solver is wiped once and
  \<^verbatim>\<open>model_built\<close> is as before. The count starts at 0, so these are the episodes
  1, 11, 21, ...
\<close>

theorem rebuild_cadence:
  assumes "step sv self action st fs = (res, self', st', fs')"
  shows "episode_count self' = episode_count self + 1
       \<and> (episode_count self' mod 10 = 1 \<longrightarrow>
            begin_episode sv self st =
              build_model sv (self\<lparr>episode_count := episode_count self + 1\<rparr>) st
          \<and> wipes st' = wipes st + 2 \<and> model_built self')
       \<and> (episode_count self' mod 10 \<noteq> 1 \<longrightarrow>
            begin_episode sv self st = (self\<lparr>episode_count := episode_count self + 1\<rparr>, st)
          \<and> wipes st' = wipes st + 1 \<and> model_built self' = model_built self)"
  using step_counts [OF assms] by (simp add: begin_episode_def Let_def)

theorem rebuild_cadence_witness:
  "(let (res, self', st', fs') = step demo_solver demo_env 4 empty_ops empty_fs
    in episode_count self' = 1 \<and> episode_count self' mod 10 = 1 \<and> wipes st' = 2 \<and>
       model_built self') \<and>
   (let (res, self', st', fs') =
          step demo_solver (demo_env\<lparr>episode_count := 1\<rparr>) 4 empty_ops empty_fs
    in episode_count self' = 2 \<and> episode_count self' mod 10 \<noteq> 1 \<and> wipes st' = 1 \<and>
       \<not> model_built self')"
proof -
  obtain res self' st' fs' where
    a: "step demo_solver demo_env 4 empty_ops empty_fs = (res, self', st', fs')"
    by (cases "step demo_solver demo_env 4 empty_ops empty_fs") auto
  obtain res2 self2 st2 fs2 where
    b: "step demo_solver (demo_env\<lparr>episode_count := 1\<rparr>) 4 empty_ops empty_fs
          = (res2, self2, st2, fs2)"
    by (cases "step demo_solver (demo_env\<lparr>episode_count := 1\<rparr>) 4 empty_ops empty_fs") auto
  show ?thesis
    unfolding a b using rebuild_cadence [OF a] rebuild_cadence [OF b]
    by (simp add: empty_ops_def)
qed

text \<open>
  C7. Whatever the action and the state before, the tuple that \<^verbatim>\<open>step\<close> returns has
  the third component, \<open>done\<close>, true. The call returns its tuple whenever the log files
  can be opened; it ends in an exception only when they cannot, and then returns no
  tuple.
\<close>

theorem step_done:
  "(fst (step sv self action st fs) = Inr (next_state, reward, dn, info) \<longrightarrow> dn = True)
   \<and> (log_writable self fs \<longrightarrow>
        (\<exists>next_state reward info. fst (step sv self action st fs)
            = Inr (next_state, reward, True, info)))
   \<and> (\<forall>e. fst (step sv self action st fs) = Inl e \<longrightarrow> \<not> log_writable self fs)"
proof -
  obtain self1 st1 where b: "begin_episode sv self st = (self1, st1)"
    by (cases "begin_episode sv self st")
  obtain alphavalue max_disps st2 where
    run: "run_opensees_analysis sv self1 (action + 1) st1 = ((alphavalue, max_disps), st2)"
    by (cases "run_opensees_analysis sv self1 (action + 1) st1") auto
  have "dn = True" if "fst (step sv self action st fs) = Inr (next_state, reward, dn, info)"
    using step_unfold [OF b run, of fs] that by (simp split: sum.splits)
  moreover have "\<exists>next_state reward info. fst (step sv self action st fs)
            = Inr (next_state, reward, True, info)" if "log_writable self fs"
    using step_writable [OF b run that] by simp
  ultimately show ?thesis using step_raised [of sv self action st fs] by blast
qed

theorem step_done_witness:
  "log_writable demo_env empty_fs \<and>
   (\<exists>next_state reward info. fst (step demo_solver demo_env 4 empty_ops empty_fs)
      = Inr (next_state, reward, True, info)) \<and>
   fst (step demo_solver demo_env 4 empty_ops blocked_fs) = Inl NotADirectoryError \<and>
   \<not> log_writable demo_env blocked_fs"
proof -
  obtain self1 st1 where b: "begin_episode demo_solver demo_env empty_ops = (self1, st1)"
    by (cases "begin_episode demo_solver demo_env empty_ops")
  obtain alphavalue max_disps st2 where
    run: "run_opensees_analysis demo_solver self1 (4 + 1) st1 = ((alphavalue, max_disps), st2)"
    by (cases "run_opensees_analysis demo_solver self1 (4 + 1) st1") auto
  have raised: "fst (step demo_solver demo_env 4 empty_ops blocked_fs) = Inl NotADirectoryError"
    using step_blocked [OF b run, of blocked_fs "''x''"] by simp
  have w: "log_writable demo_env empty_fs" by simp
  show ?thesis
    using step_done [of demo_solver demo_env 4 empty_ops empty_fs]
      step_done [of demo_solver demo_env 4 empty_ops blocked_fs] raised w
    by blast
qed

text \<open>
  C8. \<^verbatim>\<open>reset\<close> sets \<^verbatim>\<open>last_alphavalue\<close> to 0 and returns the one-element state
  \<open>[0]\<close>; it has no failing branch. Of the other methods that change the environment
  object, \<^verbatim>\<open>build_model\<close> leaves \<^verbatim>\<open>last_alphavalue\<close> as it is, and so does the
  beginning of \<^verbatim>\<open>step\<close> up to the assignment of the new alphavalue;
  \<^verbatim>\<open>run_opensees_analysis\<close> and \<^verbatim>\<open>_save_floor_disps\<close> assign no attribute.
\<close>

theorem reset_observation:
  "reset self = ([0], self\<lparr>last_alphavalue := 0\<rparr>)
   \<and> last_alphavalue (snd (reset self)) = 0
   \<and> last_alphavalue (fst (build_model sv self st)) = last_alphavalue self
   \<and> last_alphavalue (fst (begin_episode sv self st)) = last_alphavalue self"
  by (simp add: reset_def build_model_def begin_episode_def Let_def)

text \<open>
  C9 (as amended). Every call of \<^verbatim>\<open>step\<close> appends to each of the ten files
  \<^verbatim>\<open>floor_disp/floor1_disp.txt\<close> to \<^verbatim>\<open>floor_disp/floor10_disp.txt\<close> the entry of
  its floor in the format \<^verbatim>\<open>.6e\<close> and a newline, after what the file held before (an
  absent file is created); no other file changes, and the directory
  \<^verbatim>\<open>floor_disp\<close> is created if absent. The appended text is one line, and the number
  in it shows seven significant digits: one before the point and six after it. Two
  calls of \<^verbatim>\<open>step\<close> therefore leave two appended lines in each file. This is what a
  call does where the log files can be opened: where \<^verbatim>\<open>floor_disp\<close> is a regular file,
  or the path of a log file is a directory, \<^verbatim>\<open>open\<close> raises.
\<close>

theorem log_lines_appended:
  assumes "floor_num self = 10" and "log_writable self fs"
    and "begin_episode sv self st = (self1, st1)"
    and "run_opensees_analysis sv self1 (action + 1) st1 = ((alphavalue, max_disps), st2)"
    and "step sv self action st fs = (res, self', st', fs')"
  shows "(\<exists>r. res = Inr r)
       \<and> (\<forall>i<10. files fs' (floor_file (i + 1)) =
              Some (content fs (floor_file (i + 1)) @ format_6e (max_disps ! i) @ newline)
            \<and> CHR 0x0A \<notin> set (format_6e (max_disps ! i))
            \<and> significant_digits (format_6e (max_disps ! i)) = 7)
       \<and> (\<forall>q. q \<notin> (\<lambda>i. floor_file (i + 1)) ` {0..<10} \<longrightarrow> files fs' q = files fs q)
       \<and> dirs fs' = insert ''floor_disp'' (dirs fs)
       \<and> map (\<lambda>i. floor_file (i + 1)) [0..<10] =
           [''floor_disp/floor1_disp.txt'', ''floor_disp/floor2_disp.txt'',
            ''floor_disp/floor3_disp.txt'', ''floor_disp/floor4_disp.txt'',
            ''floor_disp/floor5_disp.txt'', ''floor_disp/floor6_disp.txt'',
            ''floor_disp/floor7_disp.txt'', ''floor_disp/floor8_disp.txt'',
            ''floor_disp/floor9_disp.txt'', ''floor_disp/floor10_disp.txt'']"
proof -
  have st: "res = Inr ([alphavalue], - alphavalue, True, [])"
    "fs' = snd (save_floor_disps self max_disps fs)"
    using step_writable [OF assms(3,4,2)] assms(5) by simp_all
  have lines: "files fs' (floor_file (i + 1)) =
      Some (content fs (floor_file (i + 1)) @ format_6e (max_disps ! i) @ newline)"
    if "i < 10" for i
    unfolding st(2) using that by (rule save_floor_disps_10(3) [OF assms(1,2)])
  have others: "files fs' q = files fs q"
    if "q \<notin> (\<lambda>i. floor_file (i + 1)) ` {0..<10}" for q
    unfolding st(2) using that by (rule save_floor_disps_10(4) [OF assms(1,2)])
  have dir: "dirs fs' = insert ''floor_disp'' (dirs fs)"
    unfolding st(2) by (rule save_floor_disps_10(2) [OF assms(1,2)])
  have ret: "\<exists>r. res = Inr r" using st(1) by blast
  show ?thesis
    using lines others dir floor_files_10
    by (intro conjI ret) (simp_all add: format_6e_one_line format_6e_digits del: upt_Suc)
qed

theorem log_lines_appended_counterexample:
  "(let (res, self', st', fs') = step demo_solver demo_env 4 empty_ops empty_fs
    in files fs' ''floor_disp/floor1_disp.txt'' = Some (''-2.000000e-03'' @ newline) \<and>
       significant_digits ''-2.000000e-03'' = 7 \<and>
       significant_digits ''-2.000000e-03'' \<noteq> 6)"
proof -
  obtain res self' st' fs' where
    st: "step demo_solver demo_env 4 empty_ops empty_fs = (res, self', st', fs')"
    by (cases "step demo_solver demo_env 4 empty_ops empty_fs") auto
  have "files fs' ''floor_disp/floor1_disp.txt'' = Some (''-2.000000e-03'' @ newline)"
    using demo_step_log [OF demo_env_fields(1,2) empty_fs_writable st, of 0]
    by (simp add: floor_file_demo format_demo content_def empty_fs_def)
  then show ?thesis unfolding st Let_def prod.case by (simp add: significant_digits_demo)
qed

theorem log_lines_appended_witness:
  "floor_num demo_env = 10 \<and> log_writable demo_env empty_fs \<and>
   (let (res, self', st', fs') = step demo_solver demo_env 4 empty_ops empty_fs;
        (res2, self2, st2, fs2) = step demo_solver (snd (reset self')) 7 st' fs'
    in log_writable (snd (reset self')) fs' \<and>
       files fs' ''floor_disp/floor1_disp.txt'' = Some (''-2.000000e-03'' @ newline) \<and>
       files fs' ''floor_disp/floor10_disp.txt'' = Some (''-1.100000e-02'' @ newline) \<and>
       files fs' ''accel.txt'' = None \<and>
       dirs fs' = {''floor_disp''} \<and> dirs fs2 = {''floor_disp''} \<and>
       files fs2 ''floor_disp/floor1_disp.txt'' =
         Some (''-2.000000e-03'' @ newline @ ''-2.000000e-03'' @ newline) \<and>
       files fs2 ''floor_disp/floor10_disp.txt'' =
         Some (''-1.100000e-02'' @ newline @ ''-1.100000e-02'' @ newline))"
proof -
  have fl: "floor_num demo_env = 10" by simp
  have w: "log_writable demo_env empty_fs" by simp
  obtain self1 st1 where b: "begin_episode demo_solver demo_env empty_ops = (self1, st1)"
    by (cases "begin_episode demo_solver demo_env empty_ops")
  obtain alphavalue max_disps st2 where run:
    "run_opensees_analysis demo_solver self1 (4 + 1) st1 = ((alphavalue, max_disps), st2)"
    by (cases "run_opensees_analysis demo_solver self1 (4 + 1) st1") auto
  obtain res self' st' fs' where
    st: "step demo_solver demo_env 4 empty_ops empty_fs = (res, self', st', fs')"
    by (cases "step demo_solver demo_env 4 empty_ops empty_fs") auto
  have ns1: "num_steps self1 = 3" and fl1: "floor_num self1 = 10"
    using begin_episode_fields [OF b] by simp_all
  have md: "max_disps ! i = - (int i + 2) / 1000" if "i < 10" for i
    using demo_max_disps [OF ns1 fl1 that, of "4 + 1" st1] run by simp
  note first = log_lines_appended [OF fl w b run st]
  note lines1 = first [THEN conjunct2, THEN conjunct1, rule_format, THEN conjunct1]
  note others1 = first [THEN conjunct2, THEN conjunct2, THEN conjunct1, rule_format]
  note dirs1 = first [THEN conjunct2, THEN conjunct2, THEN conjunct2, THEN conjunct1]
  have a1: "files fs' ''floor_disp/floor1_disp.txt'' = Some (''-2.000000e-03'' @ newline)"
    using lines1 [of 0] md [of 0]
    by (simp add: floor_file_demo format_demo content_def empty_fs_def)
  have a10: "files fs' ''floor_disp/floor10_disp.txt'' = Some (''-1.100000e-02'' @ newline)"
    using lines1 [of 9] md [of 9]
    by (simp add: floor_file_demo format_demo content_def empty_fs_def)
  have img: "(\<lambda>i. floor_file (i + 1)) ` {0..<10} = set (map (\<lambda>i. floor_file (i + 1)) [0..<10])"
    by (simp del: upt_Suc)
  have "''accel.txt'' \<notin> (\<lambda>i. floor_file (i + 1)) ` {0..<10}"
    unfolding img floor_files_10 by simp
  then have acc: "files fs' ''accel.txt'' = None"
    using others1 [of "''accel.txt''"] by (simp add: empty_fs_def)
  have d1: "dirs fs' = {''floor_disp''}"
    using dirs1 by (simp add: empty_fs_def)
  have w2: "log_writable (snd (reset self')) fs'"
    using d1 by (rule logged_fs_writable)
  obtain self1' st1' where
    b2: "begin_episode demo_solver (snd (reset self')) st' = (self1', st1')"
    by (cases "begin_episode demo_solver (snd (reset self')) st'")
  obtain alphavalue2 max_disps2 st2' where run2:
    "run_opensees_analysis demo_solver self1' (7 + 1) st1' = ((alphavalue2, max_disps2), st2')"
    by (cases "run_opensees_analysis demo_solver self1' (7 + 1) st1'") auto
  obtain res2 self2 st2 fs2 where
    st2: "step demo_solver (snd (reset self')) 7 st' fs' = (res2, self2, st2, fs2)"
    by (cases "step demo_solver (snd (reset self')) 7 st' fs'") auto
  have fl2: "floor_num (snd (reset self')) = 10" and ns2: "num_steps (snd (reset self')) = 3"
    using step_env_fields [OF st] by simp_all
  have ns1': "num_steps self1' = 3" and fl1': "floor_num self1' = 10"
    using begin_episode_fields [OF b2] fl2 ns2 by simp_all
  have md2: "max_disps2 ! i = - (int i + 2) / 1000" if "i < 10" for i
    using demo_max_disps [OF ns1' fl1' that, of "7 + 1" st1'] run2 by simp
  note second = log_lines_appended [OF fl2 w2 b2 run2 st2]
  note lines2 = second [THEN conjunct2, THEN conjunct1, rule_format, THEN conjunct1]
  note dirs2 = second [THEN conjunct2, THEN conjunct2, THEN conjunct2, THEN conjunct1]
  have c1: "files fs2 ''floor_disp/floor1_disp.txt'' =
         Some (''-2.000000e-03'' @ newline @ ''-2.000000e-03'' @ newline)"
    using lines2 [of 0] md2 [of 0] a1
    by (simp add: floor_file_demo format_demo content_def)
  have c10: "files fs2 ''floor_disp/floor10_disp.txt'' =
         Some (''-1.100000e-02'' @ newline @ ''-1.100000e-02'' @ newline)"
    using lines2 [of 9] md2 [of 9] a10
    by (simp add: floor_file_demo format_demo content_def)
  have d2: "dirs fs2 = {''floor_disp''}"
    using dirs2 d1 by simp
  show ?thesis
    unfolding st Let_def prod.case st2 using fl w w2 a1 a10 acc d1 d2 c1 c10 by simp
qed

text \<open>
  C10. When the solver reports a failure on the first analyze call of an episode, the
  returned maxima are all 0, the maximum story drift is 0, the alphavalue is the drift
  limit and the reward its negation, and a line \<^verbatim>\<open>0.000000e+00\<close> is appended to each
  of the ten log files. The drift limit is a ratio that is not negative, as the default
  1/100 of the only construction is, and the log files are such that they can be opened.
\<close>

theorem first_step_failure:
  assumes "floor_num self = 10" and "log_writable self fs" and "0 \<le> code_drift self"
    and "begin_episode sv self st = (self1, st1)"
    and "fails_at sv self1 0 (prepared sv self1 (action + 1) st1)"
    and "run_opensees_analysis sv self1 (action + 1) st1 = ((alphavalue, max_disps), st2)"
    and "step sv self action st fs = (res, self', st', fs')"
  shows "max_disps = replicate 10 0 \<and> max_story_drift_of self max_disps = 0
       \<and> alphavalue = code_drift self
       \<and> (\<exists>next_state. res = Inr (next_state, - code_drift self, True, []))
       \<and> (\<forall>i<10. files fs' (floor_file (i + 1)) =
              Some (content fs (floor_file (i + 1)) @ ''0.000000e+00'' @ newline))"
proof -
  have fl1: "floor_num self1 = 10" and cd1: "code_drift self1 = code_drift self"
    using begin_episode_fields [OF assms(4)] assms(1) by simp_all
  have md: "max_disps = replicate 10 0"
    using run_fails_first [OF assms(5)] assms(6) fl1 by simp
  have msd1: "max_story_drift_of self1 max_disps = 0"
    unfolding md using max_story_drift_of_zeros [of self1] fl1 by simp
  then have msd: "max_story_drift_of self max_disps = 0"
    by (simp add: max_story_drift_of_def fl1 assms(1))
  have av: "alphavalue = code_drift self"
    using run_alphavalue [of sv self1 "action + 1" st1] assms(6) msd1 cd1 assms(3) by simp
  have st: "res = Inr ([alphavalue], - alphavalue, True, [])"
    "fs' = snd (save_floor_disps self max_disps fs)"
    using step_writable [OF assms(4,6,2)] assms(7) by simp_all
  have "files fs' (floor_file (i + 1)) =
          Some (content fs (floor_file (i + 1)) @ ''0.000000e+00'' @ newline)" if "i < 10" for i
    unfolding st(2) using save_floor_disps_10(3) [OF assms(1,2) that, of max_disps] that
    by (simp add: md format_6e_zero)
  then show ?thesis using md msd av st(1) by simp
qed

theorem first_step_failure_witness:
  "floor_num demo_env = 10 \<and> log_writable demo_env empty_fs \<and> 0 \<le> code_drift demo_env \<and>
   (let (self1, st1) = begin_episode failing_solver demo_env empty_ops;
        ((alphavalue, max_disps), st2) = run_opensees_analysis failing_solver self1 (9 + 1) st1;
        (res, self', st', fs') = step failing_solver demo_env 9 empty_ops empty_fs
    in fails_at failing_solver self1 0 (prepared failing_solver self1 (9 + 1) st1) \<and>
       max_disps = replicate 10 0 \<and> alphavalue = 1/100 \<and>
       (\<exists>next_state. res = Inr (next_state, - (1/100), True, [])) \<and>
       map (files fs') (map (\<lambda>i. floor_file (i + 1)) [0..<10]) =
         replicate 10 (Some (''0.000000e+00'' @ newline)))"
proof -
  obtain self1 st1 where b: "begin_episode failing_solver demo_env empty_ops = (self1, st1)"
    by (cases "begin_episode failing_solver demo_env empty_ops")
  obtain alphavalue max_disps st2 where run:
    "run_opensees_analysis failing_solver self1 (9 + 1) st1 = ((alphavalue, max_disps), st2)"
    by (cases "run_opensees_analysis failing_solver self1 (9 + 1) st1") auto
  obtain res self' st' fs' where st:
    "step failing_solver demo_env 9 empty_ops empty_fs = (res, self', st', fs')"
    by (cases "step failing_solver demo_env 9 empty_ops empty_fs") auto
  have fl: "floor_num demo_env = 10" by simp
  have w: "log_writable demo_env empty_fs" by simp
  have cd: "0 \<le> code_drift demo_env" by simp
  have f: "fails_at failing_solver self1 0 (prepared failing_solver self1 (9 + 1) st1)"
    by simp
  note concl = first_step_failure [OF fl w cd b f run st]
  have files: "files fs' (floor_file (i + 1)) = Some (''0.000000e+00'' @ newline)"
    if "i < 10" for i
    using concl that by (simp add: content_def empty_fs_def)
  have "map (files fs') (map (\<lambda>i. floor_file (i + 1)) [0..<10]) =
         map (\<lambda>i. Some (''0.000000e+00'' @ newline)) [0..<10]"
    unfolding map_map comp_def
  proof (rule map_cong)
    fix i :: nat
    assume "i \<in> set [0..<10]"
    then have "i < 10" by simp
    then show "files fs' (floor_file (i + 1)) = Some (''0.000000e+00'' @ newline)"
      by (rule files)
  qed simp
  then have "map (files fs') (map (\<lambda>i. floor_file (i + 1)) [0..<10]) =
         replicate 10 (Some (''0.000000e+00'' @ newline))"
    by (simp add: map_replicate_const)
  then show ?thesis
    unfolding b Let_def prod.case run st using concl f fl w cd by simp
qed

end
